theory Spec2Isabelle
  imports Complex_Main
begin

section \<open>Strings and regular expressions of the source language\<close>

text \<open>
  The table detector of \<^verbatim>\<open>PDFProcessor\<close> works on JavaScript strings, which are
  sequences of UTF-16 code units. A code unit is modelled as a natural number, a string as
  a list of code units; \<open>js\<close> turns an ASCII literal into such a string.
\<close>

type_synonym jschar = nat
type_synonym jsstring = "jschar list"

definition js :: "string \<Rightarrow> jsstring" where
  "js s = map of_char s"

text \<open>
  \<^verbatim>\<open>\s\<close> of a regular expression and \<^verbatim>\<open>String.prototype.trim\<close> use the same set:
  the white space and line terminator code points. The dot of a regular expression matches
  everything but the four line terminators.
\<close>

definition isLineTerminator :: "jschar \<Rightarrow> bool" where
  "isLineTerminator c = (c = 10 \<or> c = 13 \<or> c = 8232 \<or> c = 8233)"

definition isSpace :: "jschar \<Rightarrow> bool" where
  "isSpace c = (c = 9 \<or> c = 10 \<or> c = 11 \<or> c = 12 \<or> c = 13 \<or> c = 32 \<or> c = 160
     \<or> c = 5760 \<or> (8192 \<le> c \<and> c \<le> 8202) \<or> c = 8232 \<or> c = 8233 \<or> c = 8239
     \<or> c = 8287 \<or> c = 12288 \<or> c = 65279)"

definition isDigit :: "jschar \<Rightarrow> bool" where
  "isDigit c = (48 \<le> c \<and> c \<le> 57)"

definition isUpper :: "jschar \<Rightarrow> bool" where
  "isUpper c = (65 \<le> c \<and> c \<le> 90)"

definition isWord :: "jschar \<Rightarrow> bool" where
  "isWord c = (isDigit c \<or> isUpper c \<or> (97 \<le> c \<and> c \<le> 122) \<or> c = 95)"

definition trim :: "jsstring \<Rightarrow> jsstring" where
  "trim s = rev (dropWhile isSpace (rev (dropWhile isSpace s)))"

text \<open>\<^verbatim>\<open>s.split(c)\<close> for a one-character separator: the result is never empty.\<close>

fun splitChar :: "jschar \<Rightarrow> jsstring \<Rightarrow> jsstring list" where
  "splitChar c [] = [[]]"
| "splitChar c (d # ds) =
     (if d = c then [] # splitChar c ds
      else (case splitChar c ds of [] \<Rightarrow> [[d]] | w # ws \<Rightarrow> (d # w) # ws))"

text \<open>
  The regular expressions of the source use no group, back reference or look-around, so
  \<^verbatim>\<open>test\<close> is membership in a regular language. \<open>rmatch\<close> decides it with
  derivatives. An atom is a character class, given as a predicate.
\<close>

datatype rexp =
    Zero
  | Eps
  | Atom "jschar \<Rightarrow> bool"
  | Alt rexp rexp
  | Seq rexp rexp
  | Star rexp

fun nullable :: "rexp \<Rightarrow> bool" where
  "nullable Zero = False"
| "nullable Eps = True"
| "nullable (Atom p) = False"
| "nullable (Alt r t) = (nullable r \<or> nullable t)"
| "nullable (Seq r t) = (nullable r \<and> nullable t)"
| "nullable (Star r) = True"

fun deriv :: "jschar \<Rightarrow> rexp \<Rightarrow> rexp" where
  "deriv c Zero = Zero"
| "deriv c Eps = Zero"
| "deriv c (Atom p) = (if p c then Eps else Zero)"
| "deriv c (Alt r t) = Alt (deriv c r) (deriv c t)"
| "deriv c (Seq r t) =
     (if nullable r then Alt (Seq (deriv c r) t) (deriv c t) else Seq (deriv c r) t)"
| "deriv c (Star r) = Seq (deriv c r) (Star r)"

fun rmatch :: "rexp \<Rightarrow> jsstring \<Rightarrow> bool" where
  "rmatch r [] = nullable r"
| "rmatch r (c # cs) = rmatch (deriv c r) cs"

definition Ch :: "char \<Rightarrow> rexp" where
  "Ch c = Atom (\<lambda>d. d = of_char c)"

definition Dot :: rexp where
  "Dot = Atom (\<lambda>c. \<not> isLineTerminator c)"

definition AnyChar :: rexp where
  "AnyChar = Atom (\<lambda>c. True)"

definition Plus :: "rexp \<Rightarrow> rexp" where
  "Plus r = Seq r (Star r)"

text \<open>\<open>AtLeast n r\<close> is \<^verbatim>\<open>r{n,}\<close>.\<close>

fun AtLeast :: "nat \<Rightarrow> rexp \<Rightarrow> rexp" where
  "AtLeast 0 r = Star r"
| "AtLeast (Suc n) r = Seq r (AtLeast n r)"

fun Seqs :: "rexp list \<Rightarrow> rexp" where
  "Seqs [] = Eps"
| "Seqs [r] = r"
| "Seqs (r # rs) = Seq r (Seqs rs)"

text \<open>
  A pattern is a body with its two anchors: \<open>Regex True r True\<close> is \<^verbatim>\<open>/^r$/\<close> and
  \<open>Regex False r False\<close> is \<^verbatim>\<open>/r/\<close>, which \<^verbatim>\<open>test\<close> looks for anywhere in the
  string.
\<close>

datatype regex = Regex bool rexp bool

fun test :: "regex \<Rightarrow> jsstring \<Rightarrow> bool" where
  "test (Regex atStart r atEnd) s =
     rmatch (Seq (if atStart then Eps else Star AnyChar)
               (Seq r (if atEnd then Eps else Star AnyChar))) s"

section \<open>The text-pattern table detector\<close>

text \<open>
  \<^verbatim>\<open>TableDetectionResult\<close>. Coordinates are JavaScript numbers, finite doubles: each is
  given by the rational it denotes, and the arithmetic of the layout detector rounds as
  doubles do (see \<open>binary64\<close> below). The boxes of the text-pattern detector and of the
  fallback are products of small whole numbers, which doubles hold exactly.
  A confidence is an integer or, where the source divides zero by zero, \<^verbatim>\<open>NaN\<close>.
\<close>

datatype jsnum = NaN | Num int

record box =
  box_x :: rat
  box_y :: rat
  box_width :: rat
  box_height :: rat

record table =
  tableIndex :: nat
  headers :: "jsstring list"
  data :: "jsstring list list"
  confidence :: jsnum
  boundingBox :: box

datatype sensitivity = Low | Medium | High

text \<open>The three pattern lists of \<^verbatim>\<open>isTableLine\<close>, in the order of the source.\<close>

definition spaces :: rexp where
  "spaces = Atom isSpace"

definition digit :: rexp where
  "digit = Atom isDigit"

definition word :: rexp where
  "word = Atom isWord"

definition moneyChar :: rexp where
  "moneyChar = Atom (\<lambda>c. c = of_char CHR ''$'' \<or> isDigit c \<or> c = of_char CHR '','')"

fun patterns :: "sensitivity \<Rightarrow> regex list" where
  "patterns Low =
     [Regex False (Seqs [Ch CHR ''|'', Star Dot, Ch CHR ''|'', Star Dot, Ch CHR ''|'']) False,
      Regex False (Seqs [Ch CHR 0x09, Star Dot, Ch CHR 0x09, Star Dot, Ch CHR 0x09]) False]"
| "patterns Medium =
     [Regex False (Seqs [Ch CHR ''|'', Star Dot, Ch CHR ''|'']) False,
      Regex False (Seqs [Ch CHR 0x09, Star Dot, Ch CHR 0x09]) False,
      Regex False (Seqs [AtLeast 3 spaces, Star Dot, AtLeast 3 spaces]) False,
      Regex False (Seqs [Plus moneyChar, Star Dot, Plus moneyChar]) False]"
| "patterns High =
     [Regex False (Ch CHR ''|'') False,
      Regex False (Ch CHR 0x09) False,
      Regex False (Seqs [AtLeast 2 spaces, Star Dot, AtLeast 2 spaces]) False,
      Regex False (Seqs [Star Dot, Plus digit, Star Dot, Ch CHR ''%'']) False,
      Regex False (Seqs [Star Dot, Ch CHR ''$'', Star Dot, digit]) False,
      Regex True (Seqs [Plus word, Plus spaces, Plus word, Star Dot, Plus word]) True]"

definition isTableLine :: "jsstring \<Rightarrow> sensitivity \<Rightarrow> bool" where
  "isTableLine line sens = list_ex (\<lambda>pattern. test pattern line) (patterns sens)"

text \<open>
  \<^verbatim>\<open>detectSeparator\<close>. For the two one-character separators the source builds a global
  regular expression, so \<^verbatim>\<open>match\<close> returns every occurrence. The third separator is
  the literal \<^verbatim>\<open>/\s{2,}/\<close>, without the global flag: there \<^verbatim>\<open>match\<close> returns the
  first match only, an array of length one, or null.
\<close>

datatype separator = SepChar char | SepRegex regex

definition separators :: "separator list" where
  "separators =
     [SepChar CHR ''|'', SepChar CHR 0x09, SepRegex (Regex False (AtLeast 2 spaces) False)]"

fun matches :: "separator \<Rightarrow> jsstring \<Rightarrow> nat" where
  "matches (SepChar c) line = length (filter (\<lambda>d. d = of_char c) line)"
| "matches (SepRegex r) line = (if test r line then 1 else 0)"

definition score :: "separator \<Rightarrow> jsstring list \<Rightarrow> nat" where
  "score sep lines = foldl (\<lambda>total line. total + matches sep line) 0 lines"

fun sepString :: "separator \<Rightarrow> jsstring" where
  "sepString (SepChar c) = [of_char c]"
| "sepString (SepRegex r) = js '' ''"

definition detectSeparator :: "jsstring list \<Rightarrow> jsstring" where
  "detectSeparator lines =
     fst (foldl (\<lambda>(bestSeparator, bestScore) sep.
                   if score sep lines > bestScore then (sepString sep, score sep lines)
                   else (bestSeparator, bestScore))
            (js ''|'', 0) separators)"

text \<open>
  \<^verbatim>\<open>line.split(/\s{2,}/)\<close>: the string is cut at every maximal run of two or more
  white-space characters, found from left to right.
\<close>

function splitRuns :: "jsstring \<Rightarrow> jsstring list" where
  "splitRuns [] = [[]]"
| "splitRuns (c # cs) =
     (if isSpace c \<and> cs \<noteq> [] \<and> isSpace (hd cs) then [] # splitRuns (dropWhile isSpace cs)
      else (case splitRuns cs of [] \<Rightarrow> [[c]] | w # ws \<Rightarrow> (c # w) # ws))"
  by pat_completeness auto
termination
  by (relation "measure length") (auto simp: length_dropWhile_le less_Suc_eq_le)

definition splitTableLine :: "jsstring \<Rightarrow> jsstring \<Rightarrow> jsstring list" where
  "splitTableLine line sep =
     (if sep = js ''|'' then
        filter (\<lambda>cell. length cell > 0) (map trim (splitChar (of_char CHR ''|'') line))
      else if sep = [of_char CHR 0x09] then
        map trim (splitChar (of_char CHR 0x09) line)
      else
        filter (\<lambda>cell. length cell > 0) (map trim (splitRuns line)))"

definition isCurrency :: "jschar \<Rightarrow> bool" where
  "isCurrency c = (c = of_char CHR ''$'' \<or> c = 163 \<or> c = 8364 \<or> c = 165)"

definition detectHeaders :: "jsstring list \<Rightarrow> bool" where
  "detectHeaders row =
     (let indicators = map (\<lambda>cell.
            let hasNumbers = test (Regex False digit False) cell;
                hasCurrency = test (Regex False (Atom isCurrency) False) cell;
                hasPercent = test (Regex False (Ch CHR ''%'') False) cell;
                isShort = (length cell < 20);
                hasCapitalization = test (Regex True (Atom isUpper) False) cell
            in \<not> hasNumbers \<and> \<not> hasCurrency \<and> \<not> hasPercent \<and> isShort \<and> hasCapitalization) row
      in (of_nat (length (filter (\<lambda>b. b) indicators)) :: rat)
           \<ge> of_nat (length indicators) * (6 / 10))"

definition numericChar :: rexp where
  "numericChar = Atom (\<lambda>c. isDigit c \<or> c = of_char CHR ''$'' \<or> c = of_char CHR ''%'')"

text \<open>
  \<^verbatim>\<open>calculateTableConfidence\<close> of the processor with the layout detector. The two
  quotients are \<^verbatim>\<open>NaN\<close> when zero is divided by zero, and \<^verbatim>\<open>NaN\<close> survives the
  clamp; a positive count divided by zero is infinite, and the clamp brings minus infinity
  back to the floor.
\<close>

definition calculateTableConfidence :: "jsstring list \<Rightarrow> jsstring list list \<Rightarrow> jsnum" where
  "calculateTableConfidence hs rows =
     (let c0 = (50 :: int);
          c1 = (if length hs \<ge> 2 then c0 + 10 else c0);
          c2 = (if length rows \<ge> 2 then c1 + 10 else c1);
          rowLengths = map length rows;
          consistentLength = list_all (\<lambda>len. len = length hs) rowLengths;
          c3 = (if consistentLength then c2 + 15 else c2);
          good = length (filter (\<lambda>header. length header > 2 \<and> length header < 30
                    \<and> \<not> test (Regex True (Plus digit) True) header) hs);
          hasNumericData = list_ex (\<lambda>row. list_ex (\<lambda>cell. test (Regex False numericChar False) cell) row) rows;
          emptyCells = length (filter (\<lambda>cell. trim cell = []) (concat rows));
          totalCells = length rows * length hs
      in if length hs = 0 then NaN
         else
           let headerQuality = (of_nat good :: rat) / of_nat (length hs);
               c4 = c3 + round (headerQuality * 10);
               c5 = (if hasNumericData then c4 + 10 else c4)
           in if totalCells = 0 then (if emptyCells = 0 then NaN else Num 30)
              else
                let emptyRatio = (of_nat emptyCells :: rat) / of_nat totalCells
                in Num (max 30 (min 100 (c5 - round (emptyRatio * 30)))))"

text \<open>The same function in the processor without layout detection: no header bonus, floor 0.\<close>

definition calculateTableConfidence_plain :: "jsstring list \<Rightarrow> jsstring list list \<Rightarrow> jsnum" where
  "calculateTableConfidence_plain hs rows =
     (let c0 = (50 :: int);
          c1 = (if length hs \<ge> 2 then c0 + 10 else c0);
          c2 = (if length rows \<ge> 2 then c1 + 10 else c1);
          rowLengths = map length rows;
          consistentLength = list_all (\<lambda>len. len = length hs) rowLengths;
          c3 = (if consistentLength then c2 + 15 else c2);
          hasNumericData = list_ex (\<lambda>row. list_ex (\<lambda>cell. test (Regex False numericChar False) cell) row) rows;
          c4 = (if hasNumericData then c3 + 10 else c3);
          emptyCells = length (filter (\<lambda>cell. trim cell = []) (concat rows));
          totalCells = length rows * length hs
      in if totalCells = 0 then (if emptyCells = 0 then NaN else Num 0)
         else
           let emptyRatio = (of_nat emptyCells :: rat) / of_nat totalCells
           in Num (max 0 (min 100 (c4 - round (emptyRatio * 30)))))"

text \<open>Decimal digits of a number, for the generated headers \<^verbatim>\<open>Column 1\<close>, \<^verbatim>\<open>Column 2\<close>, ...\<close>

fun numToString :: "nat \<Rightarrow> jsstring" where
  "numToString n = (if n < 10 then [48 + n] else numToString (n div 10) @ [48 + n mod 10])"

declare numToString.simps [simp del]

definition genericHeaders :: "nat \<Rightarrow> jsstring list" where
  "genericHeaders columnCount = map (\<lambda>i. js ''Column '' @ numToString (i + 1)) [0..<columnCount]"

text \<open>Comparisons with \<^verbatim>\<open>NaN\<close> are false.\<close>

fun numLess :: "jsnum \<Rightarrow> int \<Rightarrow> bool" where
  "numLess NaN t = False"
| "numLess (Num c) t = (c < t)"

fun numGeq :: "jsnum \<Rightarrow> int \<Rightarrow> bool" where
  "numGeq NaN t = False"
| "numGeq (Num c) t = (c \<ge> t)"

definition normalizeRow :: "nat \<Rightarrow> jsstring list \<Rightarrow> jsstring list" where
  "normalizeRow maxColumns row = take maxColumns (row @ replicate (maxColumns - length row) [])"

text \<open>
  \<^verbatim>\<open>parseTable\<close>; \<open>None\<close> is the \<^verbatim>\<open>null\<close> of the source. \<open>hd validRows\<close> is read
  only where \<open>validRows\<close> has two rows or more.
\<close>

definition parseTable :: "jsstring list \<Rightarrow> nat \<Rightarrow> int \<Rightarrow> table option" where
  "parseTable lines tableIdx confidenceThreshold =
     (if length lines < 2 then None
      else
        let sep = detectSeparator lines;
            rows = map (\<lambda>line. splitTableLine line sep) lines;
            validRows = filter (\<lambda>row. length row \<ge> 2) rows
        in if length validRows < 2 then None
           else
             let hasHeaders = detectHeaders (hd validRows);
                 hs = (if hasHeaders then hd validRows
                       else genericHeaders (foldr max (map length validRows) 0));
                 rows0 = (if hasHeaders then tl validRows else validRows);
                 maxColumns = length hs;
                 rows1 = map (normalizeRow maxColumns) rows0;
                 conf = calculateTableConfidence hs rows1
             in if numLess conf confidenceThreshold then None
                else Some \<lparr> tableIndex = tableIdx, headers = hs, data = rows1, confidence = conf,
                       boundingBox = \<lparr> box_x = 0, box_y = of_nat tableIdx * 100, box_width = 100,
                                       box_height = of_nat (length rows1) * 20 \<rparr> \<rparr>)"

text \<open>
  The local values \<^verbatim>\<open>validRows\<close>, \<^verbatim>\<open>headers\<close> and \<^verbatim>\<open>data\<close> of \<^verbatim>\<open>parseTable\<close>, the last
  one before its rows are normalised, as functions of the block of lines.
\<close>

definition validRows :: "jsstring list \<Rightarrow> jsstring list list" where
  "validRows lines =
     filter (\<lambda>row. length row \<ge> 2) (map (\<lambda>line. splitTableLine line (detectSeparator lines)) lines)"

definition blockHeaders :: "jsstring list \<Rightarrow> jsstring list" where
  "blockHeaders lines =
     (if detectHeaders (hd (validRows lines)) then hd (validRows lines)
      else genericHeaders (foldr max (map length (validRows lines)) 0))"

definition blockData :: "jsstring list \<Rightarrow> jsstring list list" where
  "blockData lines =
     (if detectHeaders (hd (validRows lines)) then tl (validRows lines) else validRows lines)"

text \<open>
  \<^verbatim>\<open>detectTables\<close>. The state of the loop is \<open>(currentTable, tableIdx, inTable, tables)\<close>;
  \<open>closeBlock\<close> is the code that both the loop and the end of the text run on a finished
  block: it parses the block and keeps the table when its confidence reaches the threshold.
\<close>

type_synonym scan = "jsstring list \<times> nat \<times> bool \<times> table list"

definition closeBlock :: "jsstring list \<Rightarrow> nat \<Rightarrow> int \<Rightarrow> table option" where
  "closeBlock currentTable tableIdx confidenceThreshold =
     (case parseTable currentTable tableIdx confidenceThreshold of
        None \<Rightarrow> None
      | Some extractedTable \<Rightarrow>
          if numGeq (confidence extractedTable) confidenceThreshold then Some extractedTable
          else None)"

text \<open>The tables collected so far by the loop of \<open>detectTables\<close>.\<close>

fun scanTables :: "scan \<Rightarrow> table list" where
  "scanTables (currentTable, tableIdx, inTable, tables) = tables"

definition scanLine :: "int \<Rightarrow> sensitivity \<Rightarrow> scan \<Rightarrow> jsstring \<Rightarrow> scan" where
  "scanLine confidenceThreshold sens st line =
     (case st of (currentTable, tableIdx, inTable, tables) \<Rightarrow>
        let hasTablePattern = isTableLine line sens
        in if hasTablePattern \<and> \<not> inTable then ([line], tableIdx, True, tables)
           else if hasTablePattern \<and> inTable then (currentTable @ [line], tableIdx, True, tables)
           else if \<not> hasTablePattern \<and> inTable \<and> length currentTable > 1 then
             (case closeBlock currentTable tableIdx confidenceThreshold of
                Some extractedTable \<Rightarrow> ([], tableIdx + 1, False, tables @ [extractedTable])
              | None \<Rightarrow> ([], tableIdx, False, tables))
           else if \<not> hasTablePattern then ([], tableIdx, False, tables)
           else st)"

definition scanEnd :: "int \<Rightarrow> scan \<Rightarrow> table list" where
  "scanEnd confidenceThreshold st =
     (case st of (currentTable, tableIdx, inTable, tables) \<Rightarrow>
        if inTable \<and> length currentTable > 1 then
          (case closeBlock currentTable tableIdx confidenceThreshold of
             Some extractedTable \<Rightarrow> tables @ [extractedTable]
           | None \<Rightarrow> tables)
        else tables)"

definition textLines :: "jsstring \<Rightarrow> jsstring list" where
  "textLines text = filter (\<lambda>line. length line > 0) (map trim (splitChar 10 text))"

definition scanLines :: "jsstring list \<Rightarrow> int \<Rightarrow> sensitivity \<Rightarrow> table list" where
  "scanLines lines confidenceThreshold sens =
     scanEnd confidenceThreshold
       (foldl (scanLine confidenceThreshold sens) ([], 0, False, []) lines)"

definition detectTables :: "jsstring \<Rightarrow> int \<Rightarrow> sensitivity \<Rightarrow> table list" where
  "detectTables text confidenceThreshold sens =
     scanLines (textLines text) confidenceThreshold sens"

section \<open>The layout table detector\<close>

text \<open>
  A text item of a page, as far as \<^verbatim>\<open>detectTablesByLayout\<close> reads it: its string and the
  two translation entries of its transform.
\<close>

record token =
  tok_str :: jsstring
  tok_x :: rat
  tok_y :: rat

record row =
  row_y :: rat
  row_items :: "token list"

record band =
  minX :: rat
  maxX :: rat

type_synonym page = "token list"

text \<open>
  Numbers. A coordinate is a finite double, here the rational it denotes. An arithmetic
  operation of the source is the exact operation followed by the rounding of IEEE 754
  binary64, to the nearest double with ties to the even significand: \<open>binary64\<close> below.
  A double has a significand of 53 bits and a unit no smaller than \<open>1 / 2 ^ 1074\<close>;
  \<open>shiftDown\<close> and \<open>shiftUp\<close> find the exponent of the unit. The values
  \<^verbatim>\<open>NaN\<close> and \<^verbatim>\<open>Infinity\<close> are not coordinates here, and no operation overflows: all
  magnitudes stay below \<open>2 ^ 1024\<close>. Comparisons, \<^verbatim>\<open>Math.abs\<close> and
  \<^verbatim>\<open>Math.round\<close> are exact on doubles; the comparators \<^verbatim>\<open>b.y - a.y\<close> and
  \<^verbatim>\<open>a - b\<close> of the sorts have the sign of the exact difference.
\<close>

function shiftDown :: "rat \<Rightarrow> nat" where
  "shiftDown m = (if m \<ge> 2 ^ 53 then Suc (shiftDown (m / 2)) else 0)"
  by pat_completeness auto
termination
proof (relation "measure (\<lambda>m. nat \<lfloor>m\<rfloor>)")
  show "wf (measure (\<lambda>m. nat \<lfloor>m\<rfloor>))" by simp
next
  fix m :: rat assume m: "2 ^ 53 \<le> m"
  then have "m / 2 \<le> m - 1" by simp
  then have "\<lfloor>m / 2\<rfloor> \<le> \<lfloor>m - 1\<rfloor>" by (rule floor_mono)
  moreover from m have "0 < \<lfloor>m\<rfloor>" by simp
  ultimately show "(m / 2, m) \<in> measure (\<lambda>m. nat \<lfloor>m\<rfloor>)" by simp
qed

function shiftUp :: "rat \<Rightarrow> nat" where
  "shiftUp m = (if 0 < m \<and> m < 2 ^ 52 then Suc (shiftUp (2 * m)) else 0)"
  by pat_completeness auto
termination
proof (relation "measure (\<lambda>m. nat \<lfloor>2 ^ 53 / m\<rfloor>)")
  show "wf (measure (\<lambda>m. nat \<lfloor>2 ^ 53 / m\<rfloor>))" by simp
next
  fix m :: rat assume m: "0 < m \<and> m < 2 ^ 52"
  define y where "y = 2 ^ 53 / m"
  from m have "2 * m < 2 ^ 53" by simp
  with m have y2: "2 < y" unfolding y_def by (simp add: field_simps)
  then have "y / 2 \<le> y - 1" by simp
  then have "\<lfloor>y / 2\<rfloor> \<le> \<lfloor>y - 1\<rfloor>" by (rule floor_mono)
  moreover from y2 have "0 < \<lfloor>y\<rfloor>" by simp
  moreover have "2 ^ 53 / (2 * m) = y / 2" by (simp add: y_def)
  ultimately have "nat \<lfloor>2 ^ 53 / (2 * m)\<rfloor> < nat \<lfloor>y\<rfloor>" by (simp only:) simp
  then show "(2 * m, m) \<in> measure (\<lambda>m. nat \<lfloor>2 ^ 53 / m\<rfloor>)"
    unfolding y_def by (simp only: in_measure)
qed

declare shiftDown.simps [simp del] shiftUp.simps [simp del]

definition pow2 :: "int \<Rightarrow> rat" where
  "pow2 k = (if k \<ge> 0 then 2 ^ nat k else 1 / 2 ^ nat (- k))"

definition roundEven :: "rat \<Rightarrow> int" where
  "roundEven y =
     (let f = \<lfloor>y\<rfloor>
      in if y - of_int f < 1 / 2 then f
         else if y - of_int f > 1 / 2 then f + 1
         else if even f then f else f + 1)"

definition binary64 :: "rat \<Rightarrow> rat" where
  "binary64 x =
     (if x = 0 then 0
      else
        let k = (if \<bar>x\<bar> \<ge> 2 ^ 53 then int (shiftDown \<bar>x\<bar>) else - int (shiftUp \<bar>x\<bar>));
            u = pow2 (max k (- 1074))
        in of_int (roundEven (x / u)) * u)"

text \<open>
  \<^verbatim>\<open>Math.round(v * 100) / 100\<close>: the product and the quotient are rounded to doubles;
  \<^verbatim>\<open>Math.round\<close> rounds halves upwards, as \<open>round\<close> does.
\<close>

definition round2 :: "rat \<Rightarrow> rat" where
  "round2 v = binary64 (of_int (round (binary64 (v * 100))) / 100)"

definition yTolerance :: rat where
  "yTolerance = 3"

definition gapThreshold :: rat where
  "gapThreshold = 20"

fun pushItem :: "rat \<Rightarrow> token \<Rightarrow> row list \<Rightarrow> row list" where
  "pushItem y it [] = [\<lparr> row_y = y, row_items = [it] \<rparr>]"
| "pushItem y it (r # rs) =
     (if \<bar>binary64 (row_y r - y)\<bar> \<le> yTolerance then r \<lparr> row_items := row_items r @ [it] \<rparr> # rs
      else r # pushItem y it rs)"

definition clusterRows :: "token list \<Rightarrow> row list" where
  "clusterRows items = foldl (\<lambda>rows it. pushItem (round2 (tok_y it)) it rows) [] items"

text \<open>Both sorts of the source are stable, as \<open>sort_key\<close> is.\<close>

definition pageRows :: "token list \<Rightarrow> row list" where
  "pageRows items =
     map (\<lambda>r. r \<lparr> row_items := sort_key tok_x (row_items r) \<rparr>)
       (sort_key (\<lambda>r. - row_y r) (clusterRows items))"

definition xPositions :: "row list \<Rightarrow> rat list" where
  "xPositions rows = sort (concat (map (\<lambda>r. map (\<lambda>it. round2 (tok_x it)) (row_items r)) rows))"

fun cuts :: "rat list \<Rightarrow> rat list" where
  "cuts (a # b # xs) =
     (if binary64 (b - a) > gapThreshold then b # cuts (b # xs) else cuts (b # xs))"
| "cuts xs = []"

definition bins :: "rat list \<Rightarrow> rat list" where
  "bins xs =
     (let lo = (if xs = [] then 0 else hd xs);
          hi = (if xs = [] then 0 else last xs)
      in lo # cuts xs @ [binary64 (hi + 1)])"

definition columns :: "rat list \<Rightarrow> band list" where
  "columns xs = map (\<lambda>(a, b). \<lparr> minX = a, maxX = b \<rparr>) (zip (bins xs) (tl (bins xs)))"

text \<open>\<^verbatim>\<open>Array.prototype.findIndex\<close>: the first index whose element qualifies, or \<open>-1\<close>.\<close>

fun findIndex :: "('a \<Rightarrow> bool) \<Rightarrow> 'a list \<Rightarrow> int" where
  "findIndex p [] = - 1"
| "findIndex p (x # xs) =
     (if p x then 0 else (let i = findIndex p xs in if i < 0 then - 1 else i + 1))"

definition inBand :: "rat \<Rightarrow> band \<Rightarrow> bool" where
  "inBand x c = (x \<ge> minX c \<and> x < maxX c)"

definition colIndex :: "band list \<Rightarrow> token \<Rightarrow> nat" where
  "colIndex cols it = nat (max 0 (findIndex (inBand (tok_x it)) cols))"

text \<open>
  One row of the grid. The row has one cell per band and \<open>colIndex\<close> is below the number
  of bands whenever there is a band, so the update is always in range.
\<close>

definition putItem :: "band list \<Rightarrow> jsstring list \<Rightarrow> token \<Rightarrow> jsstring list" where
  "putItem cols cells it =
     (let i = colIndex cols it
      in cells [i := (if cells ! i \<noteq> [] then cells ! i @ js '' '' else []) @ trim (tok_str it)])"

definition gridRow :: "band list \<Rightarrow> row \<Rightarrow> jsstring list" where
  "gridRow cols r = foldl (putItem cols) (replicate (length cols) []) (row_items r)"

definition nonBlank :: "jsstring \<Rightarrow> bool" where
  "nonBlank cell = (length (trim cell) > 0)"

definition cellAt :: "jsstring list \<Rightarrow> nat \<Rightarrow> jsstring" where
  "cellAt r c = (if c < length r then r ! c else [])"

definition flagAt :: "bool list \<Rightarrow> nat \<Rightarrow> bool" where
  "flagAt flags c = (c < length flags \<and> flags ! c)"

definition keepCols :: "bool list \<Rightarrow> jsstring list \<Rightarrow> jsstring list" where
  "keepCols flags r = map fst (filter (\<lambda>(cell, c). flagAt flags c) (zip r [0..<length r]))"

definition cleanGrid :: "jsstring list list \<Rightarrow> jsstring list list" where
  "cleanGrid grid =
     (let nonEmptyRows = filter (\<lambda>r. list_ex nonBlank r) grid;
          colCount = foldr max (map length nonEmptyRows) 0;
          nonEmptyCols = map (\<lambda>c. list_ex (\<lambda>r. nonBlank (cellAt r c)) nonEmptyRows) [0..<colCount]
      in map (keepCols nonEmptyCols) nonEmptyRows)"

definition layoutConfidence :: "jsstring list \<Rightarrow> jsstring list list \<Rightarrow> int" where
  "layoutConfidence hs rows =
     (let c0 = (60 :: int);
          consistentCols = list_all (\<lambda>r. length r = length hs) rows;
          c1 = (if consistentCols then c0 + 20 else c0);
          nonEmpty = length (filter nonBlank (concat rows))
      in if nonEmpty > length rows then c1 + 10 else c1)"

definition pageItems :: "page \<Rightarrow> token list" where
  "pageItems raw = filter (\<lambda>i. length (trim (tok_str i)) > 0) raw"

definition pageColumns :: "page \<Rightarrow> band list" where
  "pageColumns raw = columns (xPositions (pageRows (pageItems raw)))"

text \<open>The body of the page loop; \<open>None\<close> is a \<^verbatim>\<open>continue\<close>.\<close>

definition layoutPage :: "nat \<Rightarrow> page \<Rightarrow> table option" where
  "layoutPage tableCounter raw =
     (let items = pageItems raw
      in if length items = 0 then None
         else
           let rows = pageRows items;
               cols = columns (xPositions rows)
           in if length cols < 2 \<or> length cols > 12 then None
              else
                let grid = map (gridRow cols) rows;
                    cleaned = cleanGrid grid
                in if length cleaned = 0 then None
                   else
                     let headerRow = hd cleaned;
                         isHeader = (int (length (filter (\<lambda>cell. \<not> test (Regex False numericChar False) cell) headerRow))
                                       \<ge> \<lceil>(of_nat (length headerRow) :: rat) * (6 / 10)\<rceil>);
                         hs = (if isHeader then map (\<lambda>h. if h \<noteq> [] then h else js ''Column'') headerRow
                               else genericHeaders (length headerRow));
                         rows1 = map (map trim) (if isHeader then tl cleaned else cleaned)
                     in Some \<lparr> tableIndex = tableCounter, headers = hs, data = rows1,
                               confidence = Num (layoutConfidence hs rows1),
                               boundingBox = \<lparr> box_x = minX (hd cols), box_y = row_y (hd rows),
                                 box_width = binary64 (maxX (last cols) - minX (hd cols)),
                                 box_height = binary64 (of_nat (length rows) * 12) \<rparr> \<rparr>)"

fun layoutLoop :: "nat \<Rightarrow> page list \<Rightarrow> table list" where
  "layoutLoop tableCounter [] = []"
| "layoutLoop tableCounter (p # ps) =
     (case layoutPage tableCounter p of
        None \<Rightarrow> layoutLoop tableCounter ps
      | Some t \<Rightarrow> t # layoutLoop (tableCounter + 1) ps)"

text \<open>
  The document is the list of its pages' items, or \<open>None\<close> when reading the document or
  one of its first ten pages throws: the source then returns the empty list.
\<close>

definition detectTablesByLayout :: "page list option \<Rightarrow> table list" where
  "detectTablesByLayout pdf =
     (case pdf of None \<Rightarrow> [] | Some pages \<Rightarrow> layoutLoop 0 (take 10 pages))"

section \<open>The assembly of the result in \<^verbatim>\<open>processJob\<close>\<close>

record options =
  confidenceThreshold :: "int option"
  tableDetectionSensitivity :: "sensitivity option"

text \<open>\<^verbatim>\<open>options.confidenceThreshold || 70\<close>: a missing threshold and the threshold 0 give 70.\<close>

definition thresholdOf :: "options \<Rightarrow> int" where
  "thresholdOf opts =
     (case confidenceThreshold opts of None \<Rightarrow> 70 | Some t \<Rightarrow> if t = 0 then 70 else t)"

definition sensitivityOf :: "options \<Rightarrow> sensitivity" where
  "sensitivityOf opts = (case tableDetectionSensitivity opts of None \<Rightarrow> Medium | Some s \<Rightarrow> s)"

definition fallbackTable :: "jsstring \<Rightarrow> table" where
  "fallbackTable combinedText =
     (let lines = textLines combinedText
      in \<lparr> tableIndex = 0, headers = [js ''Text''], data = map (\<lambda>line. [line]) lines,
           confidence = Num 80,
           boundingBox = \<lparr> box_x = 0, box_y = 0, box_width = 100,
                           box_height = max 20 (of_nat (length lines) * 20) \<rparr> \<rparr>)"

text \<open>The tables that \<^verbatim>\<open>processJob\<close> hands to the storage (its step 4).\<close>

definition processJob_tables :: "page list option \<Rightarrow> jsstring \<Rightarrow> options \<Rightarrow> table list" where
  "processJob_tables pdf combinedText opts =
     (let tables = detectTablesByLayout pdf;
          tables = (if length tables = 0
                    then detectTables combinedText (thresholdOf opts) (sensitivityOf opts)
                    else tables);
          tables = (if length tables = 0 then [fallbackTable combinedText] else tables)
      in tables)"

section \<open>Inputs of the scenarios\<close>

text \<open>Two lines of prose, the second with blanks around it.\<close>

definition prose :: jsstring where
  "prose = js ''hello'' @ [10] @ js ''  world ''"

text \<open>The three lines of the sales scenario, and the text they come from.\<close>

definition regionLine1 :: jsstring where "regionLine1 = js ''Region | Sales Target | Actual Sales | Status''"
definition regionLine2 :: jsstring where "regionLine2 = js ''North America | $4,200,000 | $4,580,000 | Exceeded''"
definition regionLine3 :: jsstring where "regionLine3 = js ''Europe | $2,800,000 | $2,650,000 | Near Target''"
definition regionText :: jsstring where "regionText = regionLine1 @ [10] @ regionLine2 @ [10] @ regionLine3"

text \<open>
  A block of three lines whose second line has a cell less than the first and whose third
  line has a cell more, and the table \<open>detectTables\<close> makes of it.
\<close>

definition raggedLine1 :: jsstring where "raggedLine1 = js ''Name | Age | City''"
definition raggedLine2 :: jsstring where "raggedLine2 = js ''Bob | 42 |''"
definition raggedLine3 :: jsstring where "raggedLine3 = js ''Al | 7 | Rome | extra''"
definition raggedText :: jsstring where "raggedText = raggedLine1 @ [10] @ raggedLine2 @ [10] @ raggedLine3"

definition raggedTable :: table where
  "raggedTable =
     \<lparr> tableIndex = 0,
       headers = [js ''Name'', js ''Age'', js ''City''],
       data = [[js ''Bob'', js ''42'', []], [js ''Al'', js ''7'', js ''Rome'']],
       confidence = Num 100,
       boundingBox = \<lparr> box_x = 0, box_y = 0, box_width = 100, box_height = 40 \<rparr> \<rparr>"

text \<open>A page of two rows and two columns, with the values the layout detector computes on it.\<close>

definition peoplePage :: page where
  "peoplePage =
     [\<lparr> tok_str = js ''Name'', tok_x = 10, tok_y = 700 \<rparr>,
      \<lparr> tok_str = js ''Age'', tok_x = 100, tok_y = 700 \<rparr>,
      \<lparr> tok_str = js ''Bob'', tok_x = 10, tok_y = 680 \<rparr>,
      \<lparr> tok_str = js ''42'', tok_x = 100, tok_y = 680 \<rparr>]"

definition peopleRows :: "row list" where
  "peopleRows =
     [\<lparr> row_y = 700, row_items = [\<lparr> tok_str = js ''Name'', tok_x = 10, tok_y = 700 \<rparr>,
                                   \<lparr> tok_str = js ''Age'', tok_x = 100, tok_y = 700 \<rparr>] \<rparr>,
      \<lparr> row_y = 680, row_items = [\<lparr> tok_str = js ''Bob'', tok_x = 10, tok_y = 680 \<rparr>,
                                   \<lparr> tok_str = js ''42'', tok_x = 100, tok_y = 680 \<rparr>] \<rparr>]"

definition peopleColumns :: "band list" where
  "peopleColumns = [\<lparr> minX = 10, maxX = 100 \<rparr>, \<lparr> minX = 100, maxX = 101 \<rparr>]"

definition peopleGrid :: "jsstring list list" where
  "peopleGrid = [[js ''Name'', js ''Age''], [js ''Bob'', js ''42'']]"

definition peopleTable :: table where
  "peopleTable =
     \<lparr> tableIndex = 0, headers = [js ''Name'', js ''Age''], data = [[js ''Bob'', js ''42'']],
       confidence = Num 90,
       boundingBox = \<lparr> box_x = 10, box_y = 700, box_width = 91, box_height = 24 \<rparr> \<rparr>"

text \<open>The table of the sales scenario.\<close>

definition regionTable :: table where
  "regionTable =
     \<lparr> tableIndex = 0,
       headers = [js ''Region'', js ''Sales Target'', js ''Actual Sales'', js ''Status''],
       data = [[js ''North America'', js ''$4,200,000'', js ''$4,580,000'', js ''Exceeded''],
               [js ''Europe'', js ''$2,800,000'', js ''$2,650,000'', js ''Near Target'']],
       confidence = Num 100,
       boundingBox = \<lparr> box_x = 0, box_y = 0, box_width = 100, box_height = 40 \<rparr> \<rparr>"

definition defaultOptions :: options where
  "defaultOptions = \<lparr> confidenceThreshold = None, tableDetectionSensitivity = None \<rparr>"

text \<open>A block of two lines cut by runs of blanks and one line cut by pipes.\<close>

definition priceBlock :: "jsstring list" where
  "priceBlock = [js ''Item   Qty   Price   Total'', js ''Pen   2   $3   $6'', js ''Notes | see | below'']"


definition singlePage :: page where
  "singlePage = [\<lparr> tok_str = js ''Total'', tok_x = 72, tok_y = 700 \<rparr>]"

definition widePage :: page where
  "widePage = map (\<lambda>i. \<lparr> tok_str = js ''c'', tok_x = of_nat i * 30, tok_y = 700 \<rparr>) [0..<13]"

section \<open>Properties of the matcher\<close>

lemma rmatch_Zero [simp]: "rmatch Zero s = False"
  by (induction s) auto

lemma rmatch_Eps [simp]: "rmatch Eps s = (s = [])"
  by (cases s) auto

lemma rmatch_Atom: "rmatch (Atom p) s = (\<exists>c. s = [c] \<and> p c)"
  by (cases s) auto

lemma rmatch_Alt [simp]: "rmatch (Alt r t) s = (rmatch r s \<or> rmatch t s)"
  by (induction s arbitrary: r t) auto

text \<open>A concatenation matches when the string splits into a match of each part.\<close>

lemma rmatch_Seq: "rmatch (Seq r t) s = (\<exists>u v. s = u @ v \<and> rmatch r u \<and> rmatch t v)"
proof (induction s arbitrary: r t)
  case Nil
  then show ?case by simp
next
  case (Cons c cs)
  have step: "(\<exists>u v. c # cs = u @ v \<and> rmatch r u \<and> rmatch t v)
      = ((nullable r \<and> rmatch (deriv c t) cs)
         \<or> (\<exists>u v. cs = u @ v \<and> rmatch (deriv c r) u \<and> rmatch t v))"
    (is "?L = ?R")
  proof
    assume ?L
    then obtain u v where uv: "c # cs = u @ v" "rmatch r u" "rmatch t v" by blast
    show ?R
    proof (cases u)
      case Nil
      with uv show ?thesis by auto
    next
      case (Cons d u')
      with uv have "cs = u' @ v" "rmatch (deriv c r) u'" by auto
      with uv(3) show ?thesis by blast
    qed
  next
    assume ?R
    then show ?L
    proof
      assume "nullable r \<and> rmatch (deriv c t) cs"
      then have "c # cs = [] @ (c # cs)" "rmatch r []" "rmatch t (c # cs)" by auto
      then show ?L by blast
    next
      assume "\<exists>u v. cs = u @ v \<and> rmatch (deriv c r) u \<and> rmatch t v"
      then obtain u v where "cs = u @ v" "rmatch (deriv c r) u" "rmatch t v" by blast
      then have "c # cs = (c # u) @ v" "rmatch r (c # u)" "rmatch t v" by auto
      then show ?L by blast
    qed
  qed
  show ?case unfolding step using Cons.IH by auto
qed

lemma rmatch_Star_Atom: "rmatch (Star (Atom p)) s = (\<forall>c \<in> set s. p c)"
proof (induction s)
  case Nil
  then show ?case by simp
next
  case (Cons c cs)
  have "rmatch (Star (Atom p)) (c # cs) = (p c \<and> rmatch (Star (Atom p)) cs)"
    by (auto simp: rmatch_Seq)
  with Cons show ?case by simp
qed

lemma rmatch_Star_AnyChar [simp]: "rmatch (Star AnyChar) s"
  by (simp add: AnyChar_def rmatch_Star_Atom)

text \<open>An unanchored pattern is looked for anywhere in the string.\<close>

lemma test_search: "test (Regex False r False) s = (\<exists>u v w. s = u @ v @ w \<and> rmatch r v)"
proof -
  have "test (Regex False r False) s
      = (\<exists>u x. s = u @ x \<and> (\<exists>v w. x = v @ w \<and> rmatch r v))"
    by (simp add: rmatch_Seq del: rmatch.simps)
  also have "\<dots> = (\<exists>u v w. s = u @ v @ w \<and> rmatch r v)"
    by (intro iffI; elim exE conjE; hypsubst; intro exI conjI; (rule refl | assumption))
  finally show ?thesis .
qed

lemma test_searchI: "s = u @ v @ w \<Longrightarrow> rmatch r v \<Longrightarrow> test (Regex False r False) s"
  unfolding test_search by blast

lemma test_anchored: "test (Regex True r True) s = rmatch r s"
  by (simp add: rmatch_Seq del: rmatch.simps)

lemma test_prefix: "test (Regex True r False) s = (\<exists>v w. s = v @ w \<and> rmatch r v)"
  by (simp add: rmatch_Seq del: rmatch.simps)

declare test.simps [simp del]

lemma test_Atom: "test (Regex False (Atom p) False) s = (\<exists>c \<in> set s. p c)"
proof -
  have "(\<exists>u v w. s = u @ v @ w \<and> (\<exists>c. v = [c] \<and> p c)) = (\<exists>c \<in> set s. p c)"
  proof
    assume "\<exists>u v w. s = u @ v @ w \<and> (\<exists>c. v = [c] \<and> p c)"
    then obtain u w c where "s = u @ [c] @ w" "p c" by blast
    then have "c \<in> set s" "p c" by simp_all
    then show "\<exists>c \<in> set s. p c" ..
  next
    assume "\<exists>c \<in> set s. p c"
    then obtain c where c: "c \<in> set s" "p c" ..
    then obtain ys zs where "s = ys @ c # zs" by (auto dest: split_list)
    then have "s = ys @ [c] @ zs \<and> (\<exists>d. [c] = [d] \<and> p d)" using c by simp
    then show "\<exists>u v w. s = u @ v @ w \<and> (\<exists>c. v = [c] \<and> p c)" by blast
  qed
  then show ?thesis by (simp add: test_search rmatch_Atom)
qed

lemma test_Ch: "test (Regex False (Ch k) False) s = (of_char k \<in> set s)"
  by (simp add: Ch_def test_Atom)

lemmas rx_defs = Ch_def Dot_def AnyChar_def Plus_def spaces_def digit_def word_def
  moneyChar_def numericChar_def isSpace_def isDigit_def isWord_def isUpper_def
  isLineTerminator_def isCurrency_def numeral_3_eq_3 numeral_2_eq_2

section \<open>Blocks of the text-pattern detector\<close>

lemma scanLine_plain:
  "\<not> isTableLine n sens \<Longrightarrow> \<exists>k ts. scanLine thr sens st n = ([], k, False, ts)"
  by (cases st) (auto simp: scanLine_def split: option.splits)

lemma scan_after_plain:
  assumes "pre = [] \<or> \<not> isTableLine (last pre) sens"
  shows "\<exists>k ts. foldl (scanLine thr sens) ([], 0, False, []) pre = ([], k, False, ts)"
proof (cases "pre = []")
  case True
  then show ?thesis by simp
next
  case False
  then obtain ys n where pre: "pre = ys @ [n]" by (metis rev_exhaust)
  with assms have "\<not> isTableLine n sens" by simp
  then show ?thesis using scanLine_plain [of n sens thr] by (simp add: pre)
qed

lemma scan_single_block:
  assumes l: "isTableLine l sens"
    and post: "post = [] \<or> \<not> isTableLine (hd post) sens"
  shows "scanEnd thr (foldl (scanLine thr sens) ([], k, False, ts) (l # post))
       = scanEnd thr (foldl (scanLine thr sens) ([], k, False, ts) post)"
proof (cases post)
  case Nil
  with l show ?thesis by (simp add: scanLine_def scanEnd_def)
next
  case (Cons n post')
  with post have "\<not> isTableLine n sens" by simp
  with l have "scanLine thr sens (scanLine thr sens ([], k, False, ts) l) n
             = scanLine thr sens ([], k, False, ts) n"
    by (simp add: scanLine_def)
  then show ?thesis by (simp add: Cons)
qed

lemma parseTable_short: "length block < 2 \<Longrightarrow> parseTable block k thr = None"
  by (simp add: parseTable_def)

text \<open>
  Claim C9. A block of fewer than two lines gives no table: \<open>parseTable\<close> returns null on
  it, and a table-like line that stands alone, between lines that are not table-like or
  the ends of the text, leaves no trace in the result of \<open>detectTables\<close>: the result is
  the one for the same lines without it.
\<close>

theorem single_line_block_yields_no_table:
  "(length block < 2 \<longrightarrow> parseTable block k thr = None)
   \<and> (textLines text = pre @ l # post \<and> isTableLine l sens
        \<and> (pre = [] \<or> \<not> isTableLine (last pre) sens)
        \<and> (post = [] \<or> \<not> isTableLine (hd post) sens)
      \<longrightarrow> detectTables text thr sens = scanLines (pre @ post) thr sens)"
proof (intro conjI impI)
  assume "length block < 2"
  then show "parseTable block k thr = None" by (rule parseTable_short)
next
  assume a: "textLines text = pre @ l # post \<and> isTableLine l sens
        \<and> (pre = [] \<or> \<not> isTableLine (last pre) sens)
        \<and> (post = [] \<or> \<not> isTableLine (hd post) sens)"
  then obtain k ts where st: "foldl (scanLine thr sens) ([], 0, False, []) pre = ([], k, False, ts)"
    using scan_after_plain [of pre sens thr] by blast
  have "scanLines (pre @ l # post) thr sens = scanLines (pre @ post) thr sens"
    using a scan_single_block [of l sens post thr k ts] by (simp add: scanLines_def st)
  with a show "detectTables text thr sens = scanLines (pre @ post) thr sens"
    by (simp add: detectTables_def)
qed

lemma textLines_one: "textLines (js ''Region | Sales | Status'') = [js ''Region | Sales | Status'']"
  by (simp add: textLines_def js_def trim_def isSpace_def)

lemma tableLine_one: "isTableLine (js ''Region | Sales | Status'') Medium"
proof -
  have "js ''Region | Sales | Status'' = js ''Region '' @ js ''| Sales |'' @ js '' Status''"
    by (simp add: js_def)
  moreover have "rmatch (Seqs [Ch CHR ''|'', Star Dot, Ch CHR ''|'']) (js ''| Sales |'')"
    by (simp add: js_def rx_defs)
  ultimately have "test (Regex False (Seqs [Ch CHR ''|'', Star Dot, Ch CHR ''|'']) False)
      (js ''Region | Sales | Status'')"
    by (rule test_searchI)
  then show ?thesis by (simp add: isTableLine_def)
qed

text \<open>
  The scenario of the specification: a text of one table-like line and nothing after it
  gives no table.
\<close>

theorem single_line_block_yields_no_table_witness:
  "length [js ''Region | Sales | Status''] < 2
   \<and> parseTable [js ''Region | Sales | Status''] 0 70 = None
   \<and> isTableLine (js ''Region | Sales | Status'') Medium
   \<and> detectTables (js ''Region | Sales | Status'') 70 Medium = []"
  using single_line_block_yields_no_table
    [of "[js ''Region | Sales | Status'']" 0 70 "js ''Region | Sales | Status''" "[]"
        "js ''Region | Sales | Status''" "[]" Medium]
    textLines_one tableLine_one
  by (simp add: scanLines_def scanEnd_def)

section \<open>The last resort of the assembly\<close>

lemma processJob_tables_fallback:
  "detectTablesByLayout pdf = [] \<Longrightarrow>
   detectTables text (thresholdOf opts) (sensitivityOf opts) = [] \<Longrightarrow>
   processJob_tables pdf text opts = [fallbackTable text]"
  by (simp add: processJob_tables_def)

lemma processJob_tables_nonempty: "processJob_tables pdf text opts \<noteq> []"
  by (simp add: processJob_tables_def Let_def)

text \<open>
  Claim C2. When neither the layout detector nor the text-pattern detector finds a table,
  \<^verbatim>\<open>processJob\<close> stores exactly one table: its header is \<^verbatim>\<open>Text\<close>, it has one row
  per non-blank trimmed line of the combined text, its confidence is 80 and the height of
  its box is the larger of 20 and 20 times the number of lines. The list of tables is
  never empty. Both hold for every combined text, the non-empty ones included.
\<close>

theorem fallback_table_when_nothing_detected:
  "(detectTablesByLayout pdf = [] \<and> detectTables text (thresholdOf opts) (sensitivityOf opts) = []
      \<longrightarrow> (\<exists>t. processJob_tables pdf text opts = [t]
             \<and> headers t = [js ''Text'']
             \<and> data t = map (\<lambda>line. [line]) (textLines text)
             \<and> confidence t = Num 80
             \<and> box_height (boundingBox t) = max 20 (of_nat (length (textLines text)) * 20)))
   \<and> processJob_tables pdf text opts \<noteq> []"
proof (intro conjI impI)
  assume "detectTablesByLayout pdf = [] \<and> detectTables text (thresholdOf opts) (sensitivityOf opts) = []"
  then have "processJob_tables pdf text opts = [fallbackTable text]"
    by (simp add: processJob_tables_fallback)
  then show "\<exists>t. processJob_tables pdf text opts = [t]
             \<and> headers t = [js ''Text'']
             \<and> data t = map (\<lambda>line. [line]) (textLines text)
             \<and> confidence t = Num 80
             \<and> box_height (boundingBox t) = max 20 (of_nat (length (textLines text)) * 20)"
    by (simp add: fallbackTable_def Let_def)
next
  show "processJob_tables pdf text opts \<noteq> []" by (rule processJob_tables_nonempty)
qed

lemma prose_lines: "textLines prose = [js ''hello'', js ''world'']"
  by (simp add: prose_def textLines_def js_def trim_def isSpace_def)

lemma prose_not_table:
  "\<not> isTableLine (js ''hello'') Medium" "\<not> isTableLine (js ''world'') Medium"
  by (simp_all add: isTableLine_def js_def test.simps rx_defs)

lemma prose_detectTables: "detectTables prose 70 Medium = []"
  by (simp add: detectTables_def prose_lines scanLines_def scanLine_def scanEnd_def prose_not_table)


text \<open>Two lines of prose in an unreadable document: the fallback table has two rows.\<close>

theorem fallback_table_when_nothing_detected_witness:
  "detectTablesByLayout None = []
   \<and> detectTables prose (thresholdOf \<lparr>confidenceThreshold = None, tableDetectionSensitivity = None\<rparr>)
        (sensitivityOf \<lparr>confidenceThreshold = None, tableDetectionSensitivity = None\<rparr>) = []
   \<and> (\<exists>t. processJob_tables None prose \<lparr>confidenceThreshold = None, tableDetectionSensitivity = None\<rparr> = [t]
         \<and> headers t = [js ''Text'']
         \<and> data t = [[js ''hello''], [js ''world'']]
         \<and> confidence t = Num 80
         \<and> box_height (boundingBox t) = 40)"
proof -
  let ?o = "\<lparr>confidenceThreshold = None, tableDetectionSensitivity = None\<rparr>"
  have a: "detectTablesByLayout None = []" by (simp add: detectTablesByLayout_def)
  have b: "detectTables prose (thresholdOf ?o) (sensitivityOf ?o) = []"
    by (simp add: thresholdOf_def sensitivityOf_def prose_detectTables)
  have "\<exists>t. processJob_tables None prose ?o = [t] \<and> headers t = [js ''Text'']
         \<and> data t = map (\<lambda>line. [line]) (textLines prose) \<and> confidence t = Num 80
         \<and> box_height (boundingBox t) = max 20 (of_nat (length (textLines prose)) * 20)"
    using fallback_table_when_nothing_detected [of None prose ?o] a b by (elim conjE impE) simp_all
  then have c: "\<exists>t. processJob_tables None prose ?o = [t] \<and> headers t = [js ''Text'']
         \<and> data t = [[js ''hello''], [js ''world'']] \<and> confidence t = Num 80
         \<and> box_height (boundingBox t) = 40"
    by (simp add: prose_lines)
  show ?thesis by (intro conjI a b c)
qed

section \<open>Tables of the text-pattern detector\<close>

lemma closeBlock_Some:
  "closeBlock block k thr = Some t \<Longrightarrow> parseTable block k thr = Some t"
  by (auto simp: closeBlock_def split: option.splits if_splits)

lemma scanLine_tables:
  assumes "\<forall>t \<in> set (scanTables st). \<exists>block k. parseTable block k thr = Some t"
  shows "\<forall>t \<in> set (scanTables (scanLine thr sens st line)). \<exists>block k. parseTable block k thr = Some t"
proof (cases st)
  case (fields cur k inTable tables)
  show ?thesis
    using assms closeBlock_Some [of cur k thr]
    unfolding fields scanLine_def Let_def
    by (auto split: option.splits if_splits)
qed

lemma foldl_scanLine_tables:
  "\<forall>t \<in> set (scanTables st). \<exists>block k. parseTable block k thr = Some t \<Longrightarrow>
   \<forall>t \<in> set (scanTables (foldl (scanLine thr sens) st lines)). \<exists>block k. parseTable block k thr = Some t"
proof (induction lines arbitrary: st)
  case Nil
  then show ?case by simp
next
  case (Cons l ls)
  have "\<forall>t \<in> set (scanTables (scanLine thr sens st l)). \<exists>block k. parseTable block k thr = Some t"
    using Cons.prems by (rule scanLine_tables)
  then show ?case using Cons.IH [of "scanLine thr sens st l"] by simp
qed

lemma scanEnd_tables:
  assumes "\<forall>t \<in> set (scanTables st). \<exists>block k. parseTable block k thr = Some t"
  shows "\<forall>t \<in> set (scanEnd thr st). \<exists>block k. parseTable block k thr = Some t"
proof (cases st)
  case (fields cur k inTable tables)
  show ?thesis
    using assms closeBlock_Some [of cur k thr]
    unfolding fields scanEnd_def
    by (auto split: option.splits if_splits)
qed

lemma detectTables_from_parseTable:
  assumes "t \<in> set (detectTables text thr sens)"
  shows "\<exists>block k. parseTable block k thr = Some t"
proof -
  have "\<forall>t \<in> set (scanTables ([], 0, False, [])). \<exists>block k. parseTable block k thr = Some t"
    by simp
  from scanEnd_tables [OF foldl_scanLine_tables [OF this]] assms
  show ?thesis by (simp add: detectTables_def scanLines_def)
qed

lemma length_normalizeRow [simp]: "length (normalizeRow n row) = n"
  by (simp add: normalizeRow_def)

lemma length_genericHeaders [simp]: "length (genericHeaders n) = n"
  by (simp add: genericHeaders_def)

lemma foldr_max_ge: "x \<in> set xs \<Longrightarrow> x \<le> foldr max xs (0::nat)"
  by (induction xs) auto

text \<open>What a table returned by \<open>parseTable\<close> is made of.\<close>

lemma parseTable_SomeD:
  assumes "parseTable block k thr = Some t"
  shows "\<exists>validRows hs rows0.
           length validRows \<ge> 2 \<and> (\<forall>r \<in> set validRows. length r \<ge> 2)
         \<and> (hs = hd validRows \<and> rows0 = tl validRows
              \<or> hs = genericHeaders (foldr max (map length validRows) 0) \<and> rows0 = validRows)
         \<and> headers t = hs \<and> data t = map (normalizeRow (length hs)) rows0
         \<and> confidence t = calculateTableConfidence hs (data t)"
proof -
  define validRows where
    "validRows = filter (\<lambda>row. length row \<ge> 2)
       (map (\<lambda>line. splitTableLine line (detectSeparator block)) block)"
  define hs where
    "hs = (if detectHeaders (hd validRows) then hd validRows
           else genericHeaders (foldr max (map length validRows) 0))"
  define rows0 where
    "rows0 = (if detectHeaders (hd validRows) then tl validRows else validRows)"
  define rows1 where "rows1 = map (normalizeRow (length hs)) rows0"
  define conf where "conf = calculateTableConfidence hs rows1"
  have eq: "parseTable block k thr =
     (if length block < 2 then None
      else if length validRows < 2 then None
      else if numLess conf thr then None
      else Some \<lparr> tableIndex = k, headers = hs, data = rows1, confidence = conf,
                  boundingBox = \<lparr> box_x = 0, box_y = of_nat k * 100, box_width = 100,
                                  box_height = of_nat (length rows1) * 20 \<rparr> \<rparr>)"
    unfolding parseTable_def Let_def conf_def rows1_def rows0_def hs_def validRows_def
    by (rule refl)
  from assms [unfolded eq] have len: "length validRows \<ge> 2"
    by (simp split: if_splits)
  from assms [unfolded eq] have t: "headers t = hs" "data t = rows1" "confidence t = conf"
    by (auto split: if_splits)
  have two: "\<forall>r \<in> set validRows. length r \<ge> 2"
    by (simp add: validRows_def)
  have "hs = hd validRows \<and> rows0 = tl validRows
      \<or> hs = genericHeaders (foldr max (map length validRows) 0) \<and> rows0 = validRows"
    by (simp add: hs_def rows0_def)
  with len two t show ?thesis
    unfolding conf_def rows1_def
    by (intro exI [of _ validRows] exI [of _ hs] exI [of _ rows0]) simp
qed

lemma parseTable_rows:
  assumes "parseTable block k thr = Some t"
  shows "\<forall>r \<in> set (data t). length r = length (headers t)"
  using parseTable_SomeD [OF assms] by auto

lemma parseTable_shape:
  assumes "parseTable block k thr = Some t"
  shows "length (headers t) \<ge> 2 \<and> data t \<noteq> []"
proof -
  from parseTable_SomeD [OF assms] obtain validRows hs rows0 where
    len: "length validRows \<ge> 2" and two: "\<forall>r \<in> set validRows. length r \<ge> 2"
    and alt: "hs = hd validRows \<and> rows0 = tl validRows
              \<or> hs = genericHeaders (foldr max (map length validRows) 0) \<and> rows0 = validRows"
    and t: "headers t = hs" "data t = map (normalizeRow (length hs)) rows0"
    by blast
  from len have ne: "validRows \<noteq> []" by auto
  then have "hd validRows \<in> set validRows" by simp
  with two have hd2: "length (hd validRows) \<ge> 2" by blast
  have "length (hd validRows) \<le> foldr max (map length validRows) 0"
    using ne by (intro foldr_max_ge) simp
  with hd2 have mx: "foldr max (map length validRows) 0 \<ge> 2" by simp
  from len have tl: "tl validRows \<noteq> []" by (cases validRows) auto
  from alt show ?thesis
  proof
    assume "hs = hd validRows \<and> rows0 = tl validRows"
    with hd2 tl t show ?thesis by simp
  next
    assume "hs = genericHeaders (foldr max (map length validRows) 0) \<and> rows0 = validRows"
    with mx ne t show ?thesis by simp
  qed
qed

text \<open>The two scoring functions end in a clamp.\<close>

lemma calculateTableConfidence_cases:
  "\<exists>x. calculateTableConfidence hs rows =
     (if length hs = 0 then NaN
      else if length rows * length hs = 0
        then (if length (filter (\<lambda>cell. trim cell = []) (concat rows)) = 0 then NaN else Num 30)
        else Num (max 30 (min 100 x)))"
  unfolding calculateTableConfidence_def Let_def
  by (intro exI) (rule refl)

lemma calculateTableConfidence_range:
  assumes "calculateTableConfidence hs rows = Num c"
  shows "30 \<le> c \<and> c \<le> 100"
proof -
  from calculateTableConfidence_cases [of hs rows] obtain x where
    "calculateTableConfidence hs rows =
     (if length hs = 0 then NaN
      else if length rows * length hs = 0
        then (if length (filter (\<lambda>cell. trim cell = []) (concat rows)) = 0 then NaN else Num 30)
        else Num (max 30 (min 100 x)))" ..
  with assms show ?thesis by (auto split: if_splits)
qed

lemma calculateTableConfidence_Num:
  assumes "hs \<noteq> []" "rows \<noteq> []"
  shows "\<exists>c. calculateTableConfidence hs rows = Num c"
proof -
  from calculateTableConfidence_cases [of hs rows] obtain x where
    "calculateTableConfidence hs rows =
     (if length hs = 0 then NaN
      else if length rows * length hs = 0
        then (if length (filter (\<lambda>cell. trim cell = []) (concat rows)) = 0 then NaN else Num 30)
        else Num (max 30 (min 100 x)))" ..
  with assms show ?thesis by simp
qed

lemma calculateTableConfidence_plain_cases:
  "\<exists>x. calculateTableConfidence_plain hs rows =
     (if length rows * length hs = 0
        then (if length (filter (\<lambda>cell. trim cell = []) (concat rows)) = 0 then NaN else Num 0)
        else Num (max 0 (min 100 x)))"
  unfolding calculateTableConfidence_plain_def Let_def
  by (intro exI) (rule refl)

lemma calculateTableConfidence_plain_range:
  assumes "calculateTableConfidence_plain hs rows = Num c"
  shows "0 \<le> c \<and> c \<le> 100"
proof -
  from calculateTableConfidence_plain_cases [of hs rows] obtain x where
    "calculateTableConfidence_plain hs rows =
     (if length rows * length hs = 0
        then (if length (filter (\<lambda>cell. trim cell = []) (concat rows)) = 0 then NaN else Num 0)
        else Num (max 0 (min 100 x)))" ..
  with assms show ?thesis by (auto split: if_splits)
qed

lemma parseTable_confidence:
  assumes "parseTable block k thr = Some t"
  shows "\<exists>c. confidence t = Num c \<and> 30 \<le> c \<and> c \<le> 100"
proof -
  from parseTable_shape [OF assms] have "headers t \<noteq> []" "data t \<noteq> []" by auto
  then obtain c where c: "calculateTableConfidence (headers t) (data t) = Num c"
    using calculateTableConfidence_Num by blast
  moreover from parseTable_SomeD [OF assms]
  have "confidence t = calculateTableConfidence (headers t) (data t)" by auto
  ultimately show ?thesis using calculateTableConfidence_range [OF c] by simp
qed

section \<open>The grid of the layout detector\<close>

lemma findIndex_range: "- 1 \<le> findIndex p xs \<and> findIndex p xs < int (length xs)"
  by (induction xs) (simp_all add: Let_def)

text \<open>The cell that \<open>putItem\<close> writes exists.\<close>

lemma colIndex_in_range:
  assumes "cols \<noteq> []"
  shows "colIndex cols it < length cols"
proof -
  from assms have "0 < length cols" by simp
  with findIndex_range [of "inBand (tok_x it)" cols] show ?thesis
    unfolding colIndex_def by arith
qed

lemma length_putItem [simp]: "length (putItem cols cells it) = length cells"
  by (simp add: putItem_def Let_def)

lemma length_foldl_putItem: "length (foldl (putItem cols) cells its) = length cells"
  by (induction its arbitrary: cells) simp_all

lemma length_gridRow [simp]: "length (gridRow cols r) = length cols"
  by (simp add: gridRow_def length_foldl_putItem)

text \<open>The length of a filtered row depends on the length of the row and the flags only.\<close>

lemma length_filter_zip:
  "length xs = length ys \<Longrightarrow>
   length (filter (\<lambda>(a, c). P c) (zip xs ys)) = length (filter P ys)"
  by (induction xs ys rule: list_induct2) simp_all

lemma length_keepCols:
  "length (keepCols flags r) = length (filter (flagAt flags) [0..<length r])"
  by (simp add: keepCols_def length_filter_zip)

lemma cleanGrid_lengths:
  assumes "\<forall>r \<in> set grid. length r = n"
  shows "\<exists>m. \<forall>r \<in> set (cleanGrid grid). length r = m"
proof -
  define nonEmptyRows where "nonEmptyRows = filter (\<lambda>r. list_ex nonBlank r) grid"
  define flags where
    "flags = map (\<lambda>c. list_ex (\<lambda>r. nonBlank (cellAt r c)) nonEmptyRows)
               [0..<foldr max (map length nonEmptyRows) 0]"
  have eq: "cleanGrid grid = map (keepCols flags) nonEmptyRows"
    unfolding cleanGrid_def Let_def flags_def nonEmptyRows_def by (rule refl)
  have "\<forall>r \<in> set nonEmptyRows. length r = n"
    using assms by (simp add: nonEmptyRows_def)
  then have "\<forall>r \<in> set (cleanGrid grid). length r = length (filter (flagAt flags) [0..<n])"
    by (auto simp: eq length_keepCols)
  then show ?thesis ..
qed

text \<open>What a table of the layout detector is made of.\<close>

lemma layoutPage_SomeD:
  assumes "layoutPage k raw = Some t"
  shows "\<exists>cleaned hs.
           cleaned \<noteq> [] \<and> (\<exists>m. \<forall>r \<in> set cleaned. length r = m)
         \<and> length hs = length (hd cleaned)
         \<and> headers t = hs
         \<and> (data t = map (map trim) (tl cleaned) \<or> data t = map (map trim) cleaned)
         \<and> confidence t = Num (layoutConfidence hs (data t))
         \<and> tableIndex t = k"
proof -
  define items where "items = pageItems raw"
  define rows where "rows = pageRows items"
  define cols where "cols = columns (xPositions rows)"
  define cleaned where "cleaned = cleanGrid (map (gridRow cols) rows)"
  define isHeader where
    "isHeader = (int (length (filter (\<lambda>cell. \<not> test (Regex False numericChar False) cell) (hd cleaned)))
                   \<ge> \<lceil>(of_nat (length (hd cleaned)) :: rat) * (6 / 10)\<rceil>)"
  define hs where
    "hs = (if isHeader then map (\<lambda>h. if h \<noteq> [] then h else js ''Column'') (hd cleaned)
           else genericHeaders (length (hd cleaned)))"
  define rows1 where "rows1 = map (map trim) (if isHeader then tl cleaned else cleaned)"
  have eq: "layoutPage k raw =
     (if length items = 0 then None
      else if length cols < 2 \<or> length cols > 12 then None
      else if length cleaned = 0 then None
      else Some \<lparr> tableIndex = k, headers = hs, data = rows1,
                  confidence = Num (layoutConfidence hs rows1),
                  boundingBox = \<lparr> box_x = minX (hd cols), box_y = row_y (hd rows),
                    box_width = binary64 (maxX (last cols) - minX (hd cols)),
                    box_height = binary64 (of_nat (length rows) * 12) \<rparr> \<rparr>)"
    unfolding layoutPage_def Let_def rows1_def hs_def isHeader_def cleaned_def cols_def rows_def items_def
    by (rule refl)
  from assms [unfolded eq] have ne: "cleaned \<noteq> []"
    by (simp split: if_splits)
  from assms [unfolded eq] have t: "headers t = hs" "data t = rows1"
      "confidence t = Num (layoutConfidence hs rows1)" "tableIndex t = k"
    by (auto split: if_splits)
  have "\<forall>r \<in> set (map (gridRow cols) rows). length r = length cols" by simp
  then have same: "\<exists>m. \<forall>r \<in> set cleaned. length r = m"
    unfolding cleaned_def by (rule cleanGrid_lengths)
  have len: "length hs = length (hd cleaned)" by (simp add: hs_def genericHeaders_def)
  have "rows1 = map (map trim) (tl cleaned) \<or> rows1 = map (map trim) cleaned"
    by (simp add: rows1_def)
  with ne same len t show ?thesis
    by (intro exI [of _ cleaned] exI [of _ hs]) simp
qed

lemma layoutPage_rows:
  assumes "layoutPage k raw = Some t"
  shows "\<forall>r \<in> set (data t). length r = length (headers t)"
proof -
  from layoutPage_SomeD [OF assms] obtain cleaned hs m where
    ne: "cleaned \<noteq> []" and same: "\<forall>r \<in> set cleaned. length r = m"
    and hs: "length hs = length (hd cleaned)" "headers t = hs"
    and d: "data t = map (map trim) (tl cleaned) \<or> data t = map (map trim) cleaned"
    by blast
  from ne same have "length (hd cleaned) = m" by simp
  moreover have "\<forall>r \<in> set (tl cleaned). length r = m"
    using same ne by (auto dest: list.set_sel(2))
  ultimately show ?thesis using d hs same by auto
qed

lemma layoutConfidence_consistent:
  assumes "\<forall>r \<in> set rows. length r = length hs"
  shows "layoutConfidence hs rows = (if length (filter nonBlank (concat rows)) > length rows then 90 else 80)"
  using assms by (simp add: layoutConfidence_def Let_def list_all_iff)

lemma layoutPage_confidence:
  assumes "layoutPage k raw = Some t"
  shows "confidence t = Num (if length (filter nonBlank (concat (data t))) > length (data t) then 90 else 80)"
proof -
  from layoutPage_SomeD [OF assms]
  have "confidence t = Num (layoutConfidence (headers t) (data t))" by auto
  with layoutPage_rows [OF assms] show ?thesis
    by (simp add: layoutConfidence_consistent)
qed

lemma layoutLoop_from_layoutPage:
  "t \<in> set (layoutLoop k ps) \<Longrightarrow> \<exists>k' p. layoutPage k' p = Some t"
proof (induction ps arbitrary: k)
  case Nil
  then show ?case by simp
next
  case (Cons p ps)
  show ?case
  proof (cases "layoutPage k p")
    case None
    with Cons show ?thesis by simp
  next
    case (Some u)
    with Cons.prems have "t = u \<or> t \<in> set (layoutLoop (k + 1) ps)" by simp
    then show ?thesis using Some Cons.IH by blast
  qed
qed

lemma detectTablesByLayout_from_layoutPage:
  "t \<in> set (detectTablesByLayout pdf) \<Longrightarrow> \<exists>k p. layoutPage k p = Some t"
  by (cases pdf) (auto simp: detectTablesByLayout_def dest: layoutLoop_from_layoutPage)

section \<open>More on patterns and separators\<close>

lemma test_prefix_Atom: "test (Regex True (Atom p) False) s = (s \<noteq> [] \<and> p (hd s))"
proof (cases s)
  case Nil
  then show ?thesis by (simp add: test_prefix rmatch_Atom)
next
  case (Cons c cs)
  have "(\<exists>v w. c # cs = v @ w \<and> (\<exists>d. v = [d] \<and> p d)) = p c"
  proof
    assume "\<exists>v w. c # cs = v @ w \<and> (\<exists>d. v = [d] \<and> p d)"
    then show "p c" by auto
  next
    assume "p c"
    then have "c # cs = [c] @ cs \<and> (\<exists>d. [c] = [d] \<and> p d)" by simp
    then show "\<exists>v w. c # cs = v @ w \<and> (\<exists>d. v = [d] \<and> p d)" by blast
  qed
  then show ?thesis by (simp add: Cons test_prefix rmatch_Atom)
qed

lemma rmatch_Plus_Atom: "rmatch (Plus (Atom p)) s = (s \<noteq> [] \<and> (\<forall>c \<in> set s. p c))"
  by (cases s) (auto simp: Plus_def rmatch_Seq rmatch_Atom rmatch_Star_Atom)

lemma score_SepChar: "score (SepChar c) lines = length (filter (\<lambda>d. d = of_char c) (concat lines))"
proof -
  have "foldl (\<lambda>total line. total + matches (SepChar c) line) n lines
      = n + length (filter (\<lambda>d. d = of_char c) (concat lines))" for n
    by (induction lines arbitrary: n) simp_all
  then show ?thesis by (simp add: score_def)
qed

lemma score_SepRegex_le: "score (SepRegex r) lines \<le> length lines"
proof -
  have "foldl (\<lambda>total line. total + matches (SepRegex r) line) n lines \<le> n + length lines" for n
  proof (induction lines arbitrary: n)
    case Nil
    then show ?case by simp
  next
    case (Cons l ls)
    have "foldl (\<lambda>total line. total + matches (SepRegex r) line) (n + matches (SepRegex r) l) ls
        \<le> n + matches (SepRegex r) l + length ls" by (rule Cons.IH)
    moreover have "matches (SepRegex r) l \<le> 1" by simp
    ultimately show ?case by (simp del: matches.simps)
  qed
  from this [of 0] show ?thesis by (simp add: score_def)
qed

lemma detectSeparator_pipe:
  assumes "score (SepChar CHR 0x09) lines \<le> score (SepChar CHR ''|'') lines"
    and "score (SepRegex (Regex False (AtLeast 2 spaces) False)) lines \<le> score (SepChar CHR ''|'') lines"
  shows "detectSeparator lines = js ''|''"
  using assms by (simp add: detectSeparator_def separators_def js_def)

section \<open>The sales scenario\<close>

lemma lines_split: "textLines regionText = [regionLine1, regionLine2, regionLine3]"
  by (simp add: textLines_def regionText_def regionLine1_def regionLine2_def regionLine3_def js_def trim_def isSpace_def)

lemma rmatch_between:
  assumes "\<forall>c \<in> set m. \<not> isLineTerminator c"
  shows "rmatch (Seqs [Ch a, Star Dot, Ch b]) (of_char a # m @ [of_char b])"
proof -
  have "rmatch (Star Dot) m" using assms by (simp add: Dot_def rmatch_Star_Atom)
  moreover have "rmatch (Ch b) [of_char b]" by (simp add: Ch_def)
  ultimately have "rmatch (Seq (Star Dot) (Ch b)) (m @ [of_char b])"
    unfolding rmatch_Seq by blast
  moreover have "rmatch (Ch a) [of_char a]" by (simp add: Ch_def)
  ultimately have "rmatch (Seq (Ch a) (Seq (Star Dot) (Ch b))) ([of_char a] @ m @ [of_char b])"
    unfolding rmatch_Seq [of "Ch a"] by blast
  then show ?thesis by simp
qed

lemma isTableLine_Medium_pipes:
  assumes "s = u @ of_char CHR ''|'' # m @ of_char CHR ''|'' # w"
    and "\<forall>c \<in> set m. \<not> isLineTerminator c"
  shows "isTableLine s Medium"
proof -
  have "s = u @ (of_char CHR ''|'' # m @ [of_char CHR ''|'']) @ w" using assms(1) by simp
  then have "test (Regex False (Seqs [Ch CHR ''|'', Star Dot, Ch CHR ''|'']) False) s"
    using rmatch_between [OF assms(2)] by (rule test_searchI)
  then show ?thesis by (simp add: isTableLine_def)
qed

lemma scenario_table_lines:
  "isTableLine regionLine1 Medium" "isTableLine regionLine2 Medium" "isTableLine regionLine3 Medium"
proof -
  show "isTableLine regionLine1 Medium"
    by (rule isTableLine_Medium_pipes [of _ "js ''Region ''" "js '' Sales Target ''" "js '' Actual Sales | Status''"])
       (simp_all add: regionLine1_def js_def isLineTerminator_def)
  show "isTableLine regionLine2 Medium"
    by (rule isTableLine_Medium_pipes [of _ "js ''North America ''" "js '' $4,200,000 ''" "js '' $4,580,000 | Exceeded''"])
       (simp_all add: regionLine2_def js_def isLineTerminator_def)
  show "isTableLine regionLine3 Medium"
    by (rule isTableLine_Medium_pipes [of _ "js ''Europe ''" "js '' $2,800,000 ''" "js '' $2,650,000 | Near Target''"])
       (simp_all add: regionLine3_def js_def isLineTerminator_def)
qed

lemma scenario_scan:
  "scanLines [regionLine1, regionLine2, regionLine3] 70 Medium
     = (case closeBlock [regionLine1, regionLine2, regionLine3] 0 70 of Some t \<Rightarrow> [t] | None \<Rightarrow> [])"
  by (simp add: scanLines_def scanLine_def scanEnd_def scenario_table_lines split: option.splits)

lemma scenario_separator: "detectSeparator [regionLine1, regionLine2, regionLine3] = js ''|''"
proof (rule detectSeparator_pipe)
  have p: "score (SepChar CHR ''|'') [regionLine1, regionLine2, regionLine3] = 9"
    by (simp add: score_SepChar regionLine1_def regionLine2_def regionLine3_def js_def)
  have "score (SepChar CHR 0x09) [regionLine1, regionLine2, regionLine3] = 0"
    by (simp add: score_SepChar regionLine1_def regionLine2_def regionLine3_def js_def)
  with p show "score (SepChar CHR 0x09) [regionLine1, regionLine2, regionLine3] \<le> score (SepChar CHR ''|'') [regionLine1, regionLine2, regionLine3]"
    by simp
  have "score (SepRegex (Regex False (AtLeast 2 spaces) False)) [regionLine1, regionLine2, regionLine3] \<le> length [regionLine1, regionLine2, regionLine3]"
    by (rule score_SepRegex_le)
  with p show "score (SepRegex (Regex False (AtLeast 2 spaces) False)) [regionLine1, regionLine2, regionLine3]
       \<le> score (SepChar CHR ''|'') [regionLine1, regionLine2, regionLine3]"
    by simp
qed

lemma scenario_cells:
  "splitTableLine regionLine1 (js ''|'') = [js ''Region'', js ''Sales Target'', js ''Actual Sales'', js ''Status'']"
  "splitTableLine regionLine2 (js ''|'') = [js ''North America'', js ''$4,200,000'', js ''$4,580,000'', js ''Exceeded'']"
  "splitTableLine regionLine3 (js ''|'') = [js ''Europe'', js ''$2,800,000'', js ''$2,650,000'', js ''Near Target'']"
  by (simp_all add: splitTableLine_def regionLine1_def regionLine2_def regionLine3_def js_def trim_def isSpace_def)

lemma scenario_headers:
  "detectHeaders [js ''Region'', js ''Sales Target'', js ''Actual Sales'', js ''Status'']"
  by (simp add: detectHeaders_def test_Atom test_Ch test_prefix_Atom digit_def js_def
      isDigit_def isCurrency_def isUpper_def)

lemma scenario_confidence:
  "calculateTableConfidence [js ''Region'', js ''Sales Target'', js ''Actual Sales'', js ''Status'']
     [[js ''North America'', js ''$4,200,000'', js ''$4,580,000'', js ''Exceeded''],
      [js ''Europe'', js ''$2,800,000'', js ''$2,650,000'', js ''Near Target'']] = Num 100"
  by (simp add: calculateTableConfidence_def test_Atom test_anchored rmatch_Plus_Atom digit_def
      numericChar_def js_def isDigit_def trim_def isSpace_def)

lemma scenario_parse:
  "parseTable [regionLine1, regionLine2, regionLine3] 0 70 =
     Some \<lparr> tableIndex = 0,
       headers = [js ''Region'', js ''Sales Target'', js ''Actual Sales'', js ''Status''],
       data = [[js ''North America'', js ''$4,200,000'', js ''$4,580,000'', js ''Exceeded''],
               [js ''Europe'', js ''$2,800,000'', js ''$2,650,000'', js ''Near Target'']],
       confidence = Num 100,
       boundingBox = \<lparr> box_x = 0, box_y = 0, box_width = 100, box_height = 40 \<rparr> \<rparr>"
  by (simp add: parseTable_def scenario_separator scenario_cells scenario_headers
      normalizeRow_def scenario_confidence)

lemma scenario_result:
  "detectTables regionText 70 Medium =
     [\<lparr> tableIndex = 0,
       headers = [js ''Region'', js ''Sales Target'', js ''Actual Sales'', js ''Status''],
       data = [[js ''North America'', js ''$4,200,000'', js ''$4,580,000'', js ''Exceeded''],
               [js ''Europe'', js ''$2,800,000'', js ''$2,650,000'', js ''Near Target'']],
       confidence = Num 100,
       boundingBox = \<lparr> box_x = 0, box_y = 0, box_width = 100, box_height = 40 \<rparr> \<rparr>]"
  by (simp add: detectTables_def lines_split scenario_scan closeBlock_def scenario_parse)

text \<open>
  Claim C7. On the three lines of the sales scenario, with sensitivity medium and threshold
  70, \<open>detectTables\<close> returns exactly one table: its headers are Region, Sales Target,
  Actual Sales and Status, it has two data rows, and its confidence, 100, is at least 70.
\<close>

theorem region_scenario:
  "textLines regionText = [regionLine1, regionLine2, regionLine3]
   \<and> (\<exists>t. detectTables regionText 70 Medium = [t]
         \<and> headers t = [js ''Region'', js ''Sales Target'', js ''Actual Sales'', js ''Status'']
         \<and> length (data t) = 2
         \<and> confidence t = Num 100 \<and> numGeq (confidence t) 70)"
  by (simp add: lines_split scenario_result)

section \<open>Rounding to doubles\<close>

lemma shiftUp_reaches: "0 < m \<Longrightarrow> 2 ^ 52 \<le> m * 2 ^ shiftUp m"
proof (induction m rule: shiftUp.induct)
  case (1 m)
  show ?case
  proof (cases "m < 2 ^ 52")
    case True
    with "1.prems" have "2 ^ 52 \<le> (2 * m) * 2 ^ shiftUp (2 * m)"
      by (intro "1.IH") simp_all
    moreover from True "1.prems" have "shiftUp m = Suc (shiftUp (2 * m))"
      by (simp add: shiftUp.simps [of m])
    ultimately show ?thesis by (simp add: mult.assoc mult.left_commute)
  next
    case False
    then have "shiftUp m = 0" by (simp add: shiftUp.simps [of m])
    with False show ?thesis by simp
  qed
qed

lemma roundEven_of_int [simp]: "roundEven (of_int n) = n"
  by (simp add: roundEven_def)

text \<open>A dyadic number with a mantissa below \<open>2 ^ 53\<close> is a double.\<close>

lemma binary64_dyadic:
  assumes m: "\<bar>m\<bar> < 2 ^ 53" and j: "j \<le> 1074"
  shows "binary64 (of_int m / 2 ^ j) = of_int m / 2 ^ j"
proof (cases "m = 0")
  case True
  then show ?thesis by (simp add: binary64_def)
next
  case False
  define x :: rat where "x = of_int m / 2 ^ j"
  have x0: "x \<noteq> 0" using False by (simp add: x_def)
  have absx: "\<bar>x\<bar> * 2 ^ j = of_int \<bar>m\<bar>" by (simp add: x_def abs_divide)
  have "\<bar>x\<bar> \<le> \<bar>x\<bar> * 2 ^ j" by (simp add: mult_le_cancel_left1)
  moreover from m have mr: "(of_int \<bar>m\<bar> :: rat) < 2 ^ 53"
    by (metis of_int_less_iff of_int_numeral of_int_power)
  ultimately have small: "\<bar>x\<bar> < 2 ^ 53" using absx by (simp only:)
  define s where "s = shiftUp \<bar>x\<bar>"
  from x0 have reach: "2 ^ 52 \<le> \<bar>x\<bar> * 2 ^ s"
    unfolding s_def by (intro shiftUp_reaches) simp
  have sj: "j \<le> s"
  proof (rule ccontr)
    assume "\<not> j \<le> s"
    then have "Suc s \<le> j" by simp
    then have "(2::rat) ^ Suc s \<le> 2 ^ j" by (intro power_increasing) simp_all
    then have "\<bar>x\<bar> * 2 ^ Suc s \<le> \<bar>x\<bar> * 2 ^ j" by (intro mult_left_mono) simp_all
    moreover from reach have "2 ^ 53 \<le> \<bar>x\<bar> * 2 ^ Suc s" by simp
    ultimately have "(2::rat) ^ 53 \<le> of_int \<bar>m\<bar>" using absx by (simp only:)
    with mr show False by simp
  qed
  define t where "t = min s 1074"
  from sj j have jt: "j \<le> t" by (simp add: t_def)
  have k: "max (- int s) (- 1074) = - int t" by (simp add: t_def)
  have u: "pow2 (- int t) = 1 / 2 ^ t" by (simp add: pow2_def)
  from jt obtain d where d: "t = j + d" by (auto simp: le_iff_add)
  have "x / (1 / 2 ^ t) = of_int (m * 2 ^ d)"
    by (simp add: x_def d power_add)
  then have "roundEven (x / (1 / 2 ^ t)) = m * 2 ^ d"
    by (simp only: roundEven_of_int)
  then have "of_int (roundEven (x / (1 / 2 ^ t))) * (1 / 2 ^ t) = x"
    by (simp add: x_def d power_add)
  then have "binary64 x = x"
    using x0 small by (simp add: binary64_def Let_def s_def [symmetric] k u)
  then show ?thesis by (simp add: x_def)
qed

lemma binary64_of_int: "\<bar>n\<bar> < 2 ^ 53 \<Longrightarrow> binary64 (of_int n) = of_int n"
  using binary64_dyadic [of n 0] by simp

lemma binary64_numeral [simp]:
  "numeral n < (2::int) ^ 53 \<Longrightarrow> binary64 (numeral n) = numeral n"
  "numeral n < (2::int) ^ 53 \<Longrightarrow> binary64 (- numeral n) = - numeral n"
  using binary64_of_int [of "numeral n"] binary64_of_int [of "- numeral n"] by simp_all

lemma binary64_0 [simp]: "binary64 0 = 0" by (simp add: binary64_def)
lemma binary64_1 [simp]: "binary64 1 = 1" using binary64_of_int [of 1] by simp


section \<open>A page of two rows and two columns\<close>

text \<open>Rounding to two decimals keeps an integer coordinate, as long as its hundredfold is exact.\<close>

lemma round2_int:
  assumes "\<bar>n\<bar> * 100 < 2 ^ 53"
  shows "round2 (of_int n) = of_int n"
proof -
  from assms have a: "\<bar>n * 100\<bar> < 2 ^ 53" by (simp add: abs_mult)
  from assms have b: "\<bar>n\<bar> < 2 ^ 53" by simp
  have "binary64 (rat_of_int n * 100) = binary64 (of_int (n * 100))" by simp
  also have "\<dots> = of_int (n * 100)" using a by (rule binary64_of_int)
  finally have "round (binary64 (rat_of_int n * 100)) = n * 100"
    by (simp only: round_of_int)
  then have "round2 (of_int n) = binary64 (of_int n)" by (simp add: round2_def)
  also have "\<dots> = of_int n" using b by (rule binary64_of_int)
  finally show ?thesis .
qed

lemma round2_numeral [simp]:
  "numeral n * 100 < (2 :: int) ^ 53 \<Longrightarrow> round2 (numeral n) = numeral n"
  using round2_int [of "numeral n"] by simp

lemma round2_zero [simp]: "round2 0 = 0"
  using round2_int [of 0] by simp

text \<open>The page loop, once the intermediate values are known.\<close>

lemma layoutPage_eval:
  assumes "pageItems raw = items" "items \<noteq> []" "pageRows items = rows"
    and "columns (xPositions rows) = cols" "2 \<le> length cols" "length cols \<le> 12"
    and "cleanGrid (map (gridRow cols) rows) = cleaned" "cleaned \<noteq> []"
  shows "layoutPage k raw =
     (let headerRow = hd cleaned;
          isHeader = (int (length (filter (\<lambda>cell. \<not> test (Regex False numericChar False) cell) headerRow))
                        \<ge> \<lceil>(of_nat (length headerRow) :: rat) * (6 / 10)\<rceil>);
          hs = (if isHeader then map (\<lambda>h. if h \<noteq> [] then h else js ''Column'') headerRow
                else genericHeaders (length headerRow));
          rows1 = map (map trim) (if isHeader then tl cleaned else cleaned)
      in Some \<lparr> tableIndex = k, headers = hs, data = rows1,
                  confidence = Num (layoutConfidence hs rows1),
                  boundingBox = \<lparr> box_x = minX (hd cols), box_y = row_y (hd rows),
                    box_width = binary64 (maxX (last cols) - minX (hd cols)),
                    box_height = binary64 (of_nat (length rows) * 12) \<rparr> \<rparr>)"
  using assms by (simp add: layoutPage_def)

lemma people_items: "pageItems peoplePage = peoplePage"
  by (simp add: pageItems_def peoplePage_def js_def trim_def isSpace_def)

lemma people_rows: "pageRows peoplePage = peopleRows"
  by (simp add: pageRows_def clusterRows_def peoplePage_def peopleRows_def yTolerance_def)

lemma people_columns: "columns (xPositions peopleRows) = peopleColumns"
  by (simp add: peopleRows_def peopleColumns_def xPositions_def columns_def bins_def
      gapThreshold_def)

lemma people_grid: "map (gridRow peopleColumns) peopleRows = peopleGrid"
  by (simp add: peopleColumns_def peopleRows_def peopleGrid_def gridRow_def putItem_def
      colIndex_def inBand_def js_def trim_def isSpace_def)

lemma people_cleaned: "cleanGrid peopleGrid = peopleGrid"
  by (simp add: peopleGrid_def cleanGrid_def nonBlank_def cellAt_def keepCols_def flagAt_def
      js_def trim_def isSpace_def numeral_2_eq_2)

lemma people_table: "layoutPage 0 peoplePage = Some peopleTable"
proof -
  have "layoutPage 0 peoplePage =
     (let headerRow = hd peopleGrid;
          isHeader = (int (length (filter (\<lambda>cell. \<not> test (Regex False numericChar False) cell) headerRow))
                        \<ge> \<lceil>(of_nat (length headerRow) :: rat) * (6 / 10)\<rceil>);
          hs = (if isHeader then map (\<lambda>h. if h \<noteq> [] then h else js ''Column'') headerRow
                else genericHeaders (length headerRow));
          rows1 = map (map trim) (if isHeader then tl peopleGrid else peopleGrid)
      in Some \<lparr> tableIndex = 0, headers = hs, data = rows1,
                  confidence = Num (layoutConfidence hs rows1),
                  boundingBox = \<lparr> box_x = minX (hd peopleColumns), box_y = row_y (hd peopleRows),
                    box_width = binary64 (maxX (last peopleColumns) - minX (hd peopleColumns)),
                    box_height = binary64 (of_nat (length peopleRows) * 12) \<rparr> \<rparr>)"
  proof (rule layoutPage_eval)
    show "pageItems peoplePage = peoplePage" by (rule people_items)
    show "peoplePage \<noteq> []" by (simp add: peoplePage_def)
    show "pageRows peoplePage = peopleRows" by (rule people_rows)
    show "columns (xPositions peopleRows) = peopleColumns" by (rule people_columns)
    show "2 \<le> length peopleColumns" "length peopleColumns \<le> 12" by (simp_all add: peopleColumns_def)
    show "cleanGrid (map (gridRow peopleColumns) peopleRows) = peopleGrid"
      by (simp add: people_grid people_cleaned)
    show "peopleGrid \<noteq> []" by (simp add: peopleGrid_def)
  qed
  also have "\<dots> = Some peopleTable"
    by (simp add: peopleGrid_def peopleTable_def peopleColumns_def peopleRows_def test_Atom
        numericChar_def layoutConfidence_def nonBlank_def js_def isDigit_def trim_def isSpace_def)
  finally show ?thesis .
qed

lemma people_layout: "detectTablesByLayout (Some [peoplePage]) = [peopleTable]"
  by (simp add: detectTablesByLayout_def people_table)

lemma region_tables: "detectTables regionText 70 Medium = [regionTable]"
  by (simp add: scenario_result regionTable_def)

section \<open>Rows and confidence of every table\<close>

text \<open>
  Every table of \<open>detectTables\<close> is parsed from a block of consecutive table-like lines of
  the text.
\<close>

lemma parseTable_block:
  assumes "parseTable block k thr = Some t"
  shows "2 \<le> length block \<and> 2 \<le> length (validRows block)
       \<and> headers t = blockHeaders block
       \<and> data t = map (normalizeRow (length (blockHeaders block))) (blockData block)"
proof -
  define rows1 where "rows1 = map (normalizeRow (length (blockHeaders block))) (blockData block)"
  define conf where "conf = calculateTableConfidence (blockHeaders block) rows1"
  have eq: "parseTable block k thr =
     (if length block < 2 then None
      else if length (validRows block) < 2 then None
      else if numLess conf thr then None
      else Some \<lparr> tableIndex = k, headers = blockHeaders block, data = rows1, confidence = conf,
                  boundingBox = \<lparr> box_x = 0, box_y = of_nat k * 100, box_width = 100,
                                  box_height = of_nat (length rows1) * 20 \<rparr> \<rparr>)"
    unfolding parseTable_def Let_def conf_def rows1_def blockData_def blockHeaders_def validRows_def
    by (rule refl)
  from assms [unfolded eq] show ?thesis
    unfolding rows1_def by (auto split: if_splits)
qed

lemma block_later:
  assumes "\<exists>pre block post k. ls = pre @ block @ post \<and> (\<forall>l \<in> set block. isTableLine l sens)
             \<and> parseTable block k thr = Some t"
  shows "\<exists>pre block post k. ls @ [line] = pre @ block @ post \<and> (\<forall>l \<in> set block. isTableLine l sens)
             \<and> parseTable block k thr = Some t"
proof -
  from assms obtain pre block post k where
    a: "ls = pre @ block @ post" "\<forall>l \<in> set block. isTableLine l sens"
       "parseTable block k thr = Some t" by blast
  from a(1) have "ls @ [line] = pre @ block @ (post @ [line])" by simp
  with a(2,3) show ?thesis by blast
qed

lemma scanLine_blocks:
  assumes s: "scanLine thr sens (cur, k, inT, tables) line = (cur', k', inT', tables')"
    and c: "ls = pre0 @ cur" "\<forall>l \<in> set cur. isTableLine l sens"
    and t: "\<forall>t \<in> set tables. \<exists>pre block post j. ls = pre @ block @ post
              \<and> (\<forall>l \<in> set block. isTableLine l sens) \<and> parseTable block j thr = Some t"
  shows "(\<exists>pre. ls @ [line] = pre @ cur') \<and> (\<forall>l \<in> set cur'. isTableLine l sens)
       \<and> (\<forall>t \<in> set tables'. \<exists>pre block post j. ls @ [line] = pre @ block @ post
              \<and> (\<forall>l \<in> set block. isTableLine l sens) \<and> parseTable block j thr = Some t)"
proof -
  have old: "\<forall>t \<in> set tables. \<exists>pre block post j. ls @ [line] = pre @ block @ post
              \<and> (\<forall>l \<in> set block. isTableLine l sens) \<and> parseTable block j thr = Some t"
  proof
    fix u assume "u \<in> set tables"
    with t have "\<exists>pre block post j. ls = pre @ block @ post
              \<and> (\<forall>l \<in> set block. isTableLine l sens) \<and> parseTable block j thr = Some u" ..
    then show "\<exists>pre block post j. ls @ [line] = pre @ block @ post
              \<and> (\<forall>l \<in> set block. isTableLine l sens) \<and> parseTable block j thr = Some u"
      by (rule block_later)
  qed
  show ?thesis
  proof (cases "isTableLine line sens")
    case True
    show ?thesis
    proof (cases inT)
      case True
      with \<open>isTableLine line sens\<close> s have e: "cur' = cur @ [line]" "tables' = tables"
        by (simp_all add: scanLine_def)
      from c(1) have "ls @ [line] = pre0 @ cur'" by (simp add: e)
      then have "\<exists>pre. ls @ [line] = pre @ cur'" ..
      moreover from c(2) \<open>isTableLine line sens\<close> have "\<forall>l \<in> set cur'. isTableLine l sens"
        by (simp add: e)
      ultimately show ?thesis using old by (simp add: e(2))
    next
      case False
      with \<open>isTableLine line sens\<close> s have e: "cur' = [line]" "tables' = tables"
        by (simp_all add: scanLine_def)
      have "ls @ [line] = ls @ cur'" by (simp add: e)
      then have "\<exists>pre. ls @ [line] = pre @ cur'" ..
      moreover from \<open>isTableLine line sens\<close> have "\<forall>l \<in> set cur'. isTableLine l sens"
        by (simp add: e)
      ultimately show ?thesis using old by (simp add: e(2))
    qed
  next
    case False
    have cur': "cur' = []"
    proof (cases "inT \<and> length cur > 1")
      case True
      with False s show ?thesis
        by (cases "closeBlock cur k thr") (simp_all add: scanLine_def)
    next
      case f: False
      with False s show ?thesis by (simp add: scanLine_def split: if_splits)
    qed
    have "\<forall>t \<in> set tables'. \<exists>pre block post j. ls @ [line] = pre @ block @ post
              \<and> (\<forall>l \<in> set block. isTableLine l sens) \<and> parseTable block j thr = Some t"
    proof (cases "inT \<and> length cur > 1")
      case True
      show ?thesis
      proof (cases "closeBlock cur k thr")
        case None
        with True False s have "tables' = tables" by (simp add: scanLine_def)
        with old show ?thesis by simp
      next
        case (Some u)
        with True False s have e: "tables' = tables @ [u]" by (simp add: scanLine_def)
        from Some have "parseTable cur k thr = Some u" by (rule closeBlock_Some)
        moreover from c(1) have "ls @ [line] = pre0 @ cur @ [line]" by simp
        ultimately have "\<exists>pre block post j. ls @ [line] = pre @ block @ post
              \<and> (\<forall>l \<in> set block. isTableLine l sens) \<and> parseTable block j thr = Some u"
          using c(2) by (intro exI conjI)
        with old show ?thesis by (simp add: e)
      qed
    next
      case f: False
      with False s have "tables' = tables" by (simp add: scanLine_def split: if_splits)
      with old show ?thesis by simp
    qed
    with cur' show ?thesis by simp
  qed
qed

lemma foldl_scanLine_blocks:
  assumes s: "foldl (scanLine thr sens) (cur, k, inT, tables) lines = (cur', k', inT', tables')"
    and c: "ls = pre0 @ cur" "\<forall>l \<in> set cur. isTableLine l sens"
    and t: "\<forall>t \<in> set tables. \<exists>pre block post j. ls = pre @ block @ post
              \<and> (\<forall>l \<in> set block. isTableLine l sens) \<and> parseTable block j thr = Some t"
  shows "(\<exists>pre. ls @ lines = pre @ cur') \<and> (\<forall>l \<in> set cur'. isTableLine l sens)
       \<and> (\<forall>t \<in> set tables'. \<exists>pre block post j. ls @ lines = pre @ block @ post
              \<and> (\<forall>l \<in> set block. isTableLine l sens) \<and> parseTable block j thr = Some t)"
  using s c t
proof (induction lines arbitrary: cur k inT tables ls pre0)
  case Nil
  then show ?case by auto
next
  case (Cons line lines)
  obtain cur1 k1 inT1 tables1 where
    st: "scanLine thr sens (cur, k, inT, tables) line = (cur1, k1, inT1, tables1)"
    by (cases "scanLine thr sens (cur, k, inT, tables) line") auto
  from scanLine_blocks [OF st Cons.prems(2,3,4)]
  obtain pre1 where
    a: "ls @ [line] = pre1 @ cur1" "\<forall>l \<in> set cur1. isTableLine l sens"
      "\<forall>t \<in> set tables1. \<exists>pre block post j. ls @ [line] = pre @ block @ post
              \<and> (\<forall>l \<in> set block. isTableLine l sens) \<and> parseTable block j thr = Some t"
    by blast
  from Cons.prems(1) st have
    "foldl (scanLine thr sens) (cur1, k1, inT1, tables1) lines = (cur', k', inT', tables')"
    by simp
  from Cons.IH [OF this a] show ?case by simp
qed

lemma detectTables_block:
  assumes "t \<in> set (detectTables text thr sens)"
  shows "\<exists>pre block post k. textLines text = pre @ block @ post
           \<and> (\<forall>l \<in> set block. isTableLine l sens) \<and> parseTable block k thr = Some t"
proof -
  obtain cur k inT tables where
    f: "foldl (scanLine thr sens) ([], 0, False, []) (textLines text) = (cur, k, inT, tables)"
    by (cases "foldl (scanLine thr sens) ([], 0, False, []) (textLines text)") auto
  have "[] = [] @ ([] :: jsstring list)" by simp
  moreover have "\<forall>l \<in> set ([] :: jsstring list). isTableLine l sens" by simp
  moreover have "\<forall>t \<in> set ([] :: table list). \<exists>pre block post j. [] = pre @ block @ post
              \<and> (\<forall>l \<in> set block. isTableLine l sens) \<and> parseTable block j thr = Some t"
    by simp
  ultimately have "(\<exists>pre. [] @ textLines text = pre @ cur) \<and> (\<forall>l \<in> set cur. isTableLine l sens)
       \<and> (\<forall>t \<in> set tables. \<exists>pre block post j. [] @ textLines text = pre @ block @ post
              \<and> (\<forall>l \<in> set block. isTableLine l sens) \<and> parseTable block j thr = Some t)"
    by (rule foldl_scanLine_blocks [OF f])
  then obtain pre1 where
    a: "textLines text = pre1 @ cur" "\<forall>l \<in> set cur. isTableLine l sens"
      "\<forall>t \<in> set tables. \<exists>pre block post j. textLines text = pre @ block @ post
              \<and> (\<forall>l \<in> set block. isTableLine l sens) \<and> parseTable block j thr = Some t"
    unfolding append_Nil by (elim conjE exE)
  from assms f have "t \<in> set (scanEnd thr (cur, k, inT, tables))"
    by (simp add: detectTables_def scanLines_def)
  then consider "t \<in> set tables" | "closeBlock cur k thr = Some t"
    by (auto simp: scanEnd_def split: if_splits option.splits)
  then show ?thesis
  proof cases
    case 1
    with a(3) show ?thesis ..
  next
    case 2
    then have "parseTable cur k thr = Some t" by (rule closeBlock_Some)
    moreover from a(1) have "textLines text = pre1 @ cur @ []" by simp
    ultimately show ?thesis using a(2) by (intro exI conjI)
  qed
qed

text \<open>The block of ragged lines.\<close>

lemma ragged_lines: "textLines raggedText = [raggedLine1, raggedLine2, raggedLine3]"
  by (simp add: textLines_def raggedText_def raggedLine1_def raggedLine2_def raggedLine3_def js_def trim_def isSpace_def)

lemma ragged_table_lines:
  "isTableLine raggedLine1 Medium" "isTableLine raggedLine2 Medium" "isTableLine raggedLine3 Medium"
proof -
  show "isTableLine raggedLine1 Medium"
    by (rule isTableLine_Medium_pipes [of _ "js ''Name ''" "js '' Age ''" "js '' City''"])
       (simp_all add: raggedLine1_def js_def isLineTerminator_def)
  show "isTableLine raggedLine2 Medium"
    by (rule isTableLine_Medium_pipes [of _ "js ''Bob ''" "js '' 42 ''" "[]"])
       (simp_all add: raggedLine2_def js_def isLineTerminator_def)
  show "isTableLine raggedLine3 Medium"
    by (rule isTableLine_Medium_pipes [of _ "js ''Al ''" "js '' 7 ''" "js '' Rome | extra''"])
       (simp_all add: raggedLine3_def js_def isLineTerminator_def)
qed

lemma ragged_scan:
  "scanLines [raggedLine1, raggedLine2, raggedLine3] 70 Medium
     = (case closeBlock [raggedLine1, raggedLine2, raggedLine3] 0 70 of Some t \<Rightarrow> [t] | None \<Rightarrow> [])"
  by (simp add: scanLines_def scanLine_def scanEnd_def ragged_table_lines split: option.splits)

lemma ragged_separator: "detectSeparator [raggedLine1, raggedLine2, raggedLine3] = js ''|''"
proof (rule detectSeparator_pipe)
  have p: "score (SepChar CHR ''|'') [raggedLine1, raggedLine2, raggedLine3] = 7"
    by (simp add: score_SepChar raggedLine1_def raggedLine2_def raggedLine3_def js_def)
  have "score (SepChar CHR 0x09) [raggedLine1, raggedLine2, raggedLine3] = 0"
    by (simp add: score_SepChar raggedLine1_def raggedLine2_def raggedLine3_def js_def)
  with p show "score (SepChar CHR 0x09) [raggedLine1, raggedLine2, raggedLine3] \<le> score (SepChar CHR ''|'') [raggedLine1, raggedLine2, raggedLine3]"
    by simp
  have "score (SepRegex (Regex False (AtLeast 2 spaces) False)) [raggedLine1, raggedLine2, raggedLine3] \<le> length [raggedLine1, raggedLine2, raggedLine3]"
    by (rule score_SepRegex_le)
  with p show "score (SepRegex (Regex False (AtLeast 2 spaces) False)) [raggedLine1, raggedLine2, raggedLine3]
       \<le> score (SepChar CHR ''|'') [raggedLine1, raggedLine2, raggedLine3]"
    by simp
qed

lemma ragged_cells:
  "splitTableLine raggedLine1 (js ''|'') = [js ''Name'', js ''Age'', js ''City'']"
  "splitTableLine raggedLine2 (js ''|'') = [js ''Bob'', js ''42'']"
  "splitTableLine raggedLine3 (js ''|'') = [js ''Al'', js ''7'', js ''Rome'', js ''extra'']"
  by (simp_all add: splitTableLine_def raggedLine1_def raggedLine2_def raggedLine3_def js_def trim_def isSpace_def)

lemma ragged_headers: "detectHeaders [js ''Name'', js ''Age'', js ''City'']"
  by (simp add: detectHeaders_def test_Atom test_Ch test_prefix_Atom digit_def js_def
      isDigit_def isCurrency_def isUpper_def)

lemma ragged_valid:
  "validRows [raggedLine1, raggedLine2, raggedLine3] =
     [[js ''Name'', js ''Age'', js ''City''], [js ''Bob'', js ''42''],
      [js ''Al'', js ''7'', js ''Rome'', js ''extra'']]"
  by (simp add: validRows_def ragged_separator ragged_cells)

lemma ragged_block:
  "blockHeaders [raggedLine1, raggedLine2, raggedLine3] = [js ''Name'', js ''Age'', js ''City'']"
  "blockData [raggedLine1, raggedLine2, raggedLine3] =
     [[js ''Bob'', js ''42''], [js ''Al'', js ''7'', js ''Rome'', js ''extra'']]"
  by (simp_all add: blockHeaders_def blockData_def ragged_valid ragged_headers)

lemma ragged_confidence:
  "calculateTableConfidence [js ''Name'', js ''Age'', js ''City'']
     [[js ''Bob'', js ''42'', []], [js ''Al'', js ''7'', js ''Rome'']] = Num 100"
  by (simp add: calculateTableConfidence_def test_Atom test_anchored rmatch_Plus_Atom digit_def
      numericChar_def js_def isDigit_def trim_def isSpace_def)

lemma ragged_parse: "parseTable [raggedLine1, raggedLine2, raggedLine3] 0 70 = Some raggedTable"
  by (simp add: parseTable_def ragged_separator ragged_cells ragged_headers
      normalizeRow_def ragged_confidence raggedTable_def)

lemma ragged_tables: "detectTables raggedText 70 Medium = [raggedTable]"
  by (simp add: detectTables_def ragged_lines ragged_scan closeBlock_def ragged_parse raggedTable_def)

lemma detectTables_rows:
  assumes "t \<in> set (detectTables text thr sens)"
  shows "(\<forall>r \<in> set (data t). length r = length (headers t))
       \<and> (\<exists>rows0. data t = map (normalizeRow (length (headers t))) rows0)"
proof -
  from detectTables_from_parseTable [OF assms] obtain block k where
    p: "parseTable block k thr = Some t" by blast
  from parseTable_SomeD [OF p] have "\<exists>rows0. data t = map (normalizeRow (length (headers t))) rows0"
    by auto
  with parseTable_rows [OF p] show ?thesis by simp
qed

lemma detectTables_confidence:
  assumes "t \<in> set (detectTables text thr sens)"
  shows "\<exists>c. confidence t = Num c \<and> 30 \<le> c \<and> c \<le> 100"
proof -
  from detectTables_from_parseTable [OF assms] obtain block k where
    "parseTable block k thr = Some t" by blast
  then show ?thesis by (rule parseTable_confidence)
qed

lemma detectTablesByLayout_rows:
  assumes "t \<in> set (detectTablesByLayout pdf)"
  shows "\<forall>r \<in> set (data t). length r = length (headers t)"
proof -
  from detectTablesByLayout_from_layoutPage [OF assms] obtain k p where
    "layoutPage k p = Some t" by blast
  then show ?thesis by (rule layoutPage_rows)
qed

lemma detectTablesByLayout_confidence:
  assumes "t \<in> set (detectTablesByLayout pdf)"
  shows "confidence t = Num 80 \<or> confidence t = Num 90"
proof -
  from detectTablesByLayout_from_layoutPage [OF assms] obtain k p where
    "layoutPage k p = Some t" by blast
  from layoutPage_confidence [OF this] show ?thesis by (simp split: if_splits)
qed

text \<open>A table of \<open>processJob_tables\<close> comes from one of the three sources.\<close>

lemma processJob_tables_cases:
  assumes "t \<in> set (processJob_tables pdf text opts)"
  shows "t \<in> set (detectTablesByLayout pdf)
       \<or> t \<in> set (detectTables text (thresholdOf opts) (sensitivityOf opts))
       \<or> t = fallbackTable text"
  using assms by (auto simp: processJob_tables_def Let_def split: if_splits)

lemma fallbackTable_rows: "\<forall>r \<in> set (data (fallbackTable text)). length r = length (headers (fallbackTable text))"
  by (auto simp: fallbackTable_def Let_def)

lemma processJob_tables_rows:
  assumes "t \<in> set (processJob_tables pdf text opts)"
  shows "\<forall>r \<in> set (data t). length r = length (headers t)"
  using processJob_tables_cases [OF assms] detectTablesByLayout_rows [of t pdf]
    detectTables_rows [of t "text" "thresholdOf opts" "sensitivityOf opts"] fallbackTable_rows [of "text"]
  by blast

lemma processJob_tables_confidence:
  assumes "t \<in> set (processJob_tables pdf text opts)"
  shows "\<exists>c. confidence t = Num c \<and> 0 \<le> c \<and> c \<le> 100"
proof -
  from processJob_tables_cases [OF assms] consider
      "t \<in> set (detectTablesByLayout pdf)"
    | "t \<in> set (detectTables text (thresholdOf opts) (sensitivityOf opts))"
    | "t = fallbackTable text" by blast
  then show ?thesis
  proof cases
    case 1
    from detectTablesByLayout_confidence [OF this] show ?thesis by auto
  next
    case 2
    from detectTables_confidence [OF this] obtain c where "confidence t = Num c" "30 \<le> c" "c \<le> 100"
      by blast
    then show ?thesis by simp
  next
    case 3
    then show ?thesis by (simp add: fallbackTable_def Let_def)
  qed
qed

lemma normalizeRow_pad: "length row \<le> n \<Longrightarrow> normalizeRow n row = row @ replicate (n - length row) []"
  by (simp add: normalizeRow_def)

lemma normalizeRow_cut: "n \<le> length row \<Longrightarrow> normalizeRow n row = take n row"
  by (simp add: normalizeRow_def)

lemma detectTables_block_rows:
  assumes "t \<in> set (detectTables text thr sens)"
  shows "\<exists>pre block post. textLines text = pre @ block @ post
           \<and> (\<forall>line \<in> set block. isTableLine line sens)
           \<and> headers t = blockHeaders block
           \<and> data t = map (normalizeRow (length (headers t))) (blockData block)
           \<and> length (data t) = length (blockData block)
           \<and> (\<forall>i < length (blockData block).
                 (length (blockData block ! i) \<le> length (headers t) \<longrightarrow>
                    data t ! i = blockData block ! i
                      @ replicate (length (headers t) - length (blockData block ! i)) [])
               \<and> (length (headers t) \<le> length (blockData block ! i) \<longrightarrow>
                    data t ! i = take (length (headers t)) (blockData block ! i)))"
proof -
  from detectTables_block [OF assms] obtain pre block post k where
    a: "textLines text = pre @ block @ post" "\<forall>l \<in> set block. isTableLine l sens"
      "parseTable block k thr = Some t" by (elim exE conjE)
  from parseTable_block [OF a(3)] have
    h: "headers t = blockHeaders block"
    and d: "data t = map (normalizeRow (length (blockHeaders block))) (blockData block)"
    by simp_all
  from h d have d': "data t = map (normalizeRow (length (headers t))) (blockData block)" by simp
  then have len: "length (data t) = length (blockData block)" by simp
  have rows: "\<forall>i < length (blockData block).
                 (length (blockData block ! i) \<le> length (headers t) \<longrightarrow>
                    data t ! i = blockData block ! i
                      @ replicate (length (headers t) - length (blockData block ! i)) [])
               \<and> (length (headers t) \<le> length (blockData block ! i) \<longrightarrow>
                    data t ! i = take (length (headers t)) (blockData block ! i))"
  proof (intro allI impI)
    fix i assume i: "i < length (blockData block)"
    with d' have "data t ! i = normalizeRow (length (headers t)) (blockData block ! i)" by simp
    then show "(length (blockData block ! i) \<le> length (headers t) \<longrightarrow>
                    data t ! i = blockData block ! i
                      @ replicate (length (headers t) - length (blockData block ! i)) [])
               \<and> (length (headers t) \<le> length (blockData block ! i) \<longrightarrow>
                    data t ! i = take (length (headers t)) (blockData block ! i))"
      by (simp add: normalizeRow_def)
  qed
  from a(1,2) h d' len rows show ?thesis by (intro exI conjI)
qed

text \<open>
  Claim C1. In every table of the layout detector, of the text-pattern detector and of
  \<^verbatim>\<open>processJob\<close> (which adds the fallback table), every row of \<open>data\<close> has as many
  cells as there are headers. A table of the text-pattern detector comes from a block of
  consecutive table-like lines of the text: its headers are those \<^verbatim>\<open>parseTable\<close> takes
  from the split lines of the block, and its \<open>i\<close>-th row is the \<open>i\<close>-th split row of the
  block, followed by empty strings up to the number of headers when it is shorter, and
  cut to the number of headers when it is longer. That is what \<open>normalizeRow\<close> does to
  any row.
\<close>

theorem every_row_has_header_length:
  "(\<forall>t \<in> set (detectTablesByLayout pdf). \<forall>r \<in> set (data t). length r = length (headers t))
   \<and> (\<forall>t \<in> set (detectTables text thr sens).
         (\<forall>r \<in> set (data t). length r = length (headers t))
         \<and> (\<exists>rows0. data t = map (normalizeRow (length (headers t))) rows0)
         \<and> (\<exists>pre block post. textLines text = pre @ block @ post
               \<and> (\<forall>line \<in> set block. isTableLine line sens)
               \<and> headers t = blockHeaders block
               \<and> data t = map (normalizeRow (length (headers t))) (blockData block)
               \<and> length (data t) = length (blockData block)
               \<and> (\<forall>i < length (blockData block).
                     (length (blockData block ! i) \<le> length (headers t) \<longrightarrow>
                        data t ! i = blockData block ! i
                          @ replicate (length (headers t) - length (blockData block ! i)) [])
                   \<and> (length (headers t) \<le> length (blockData block ! i) \<longrightarrow>
                        data t ! i = take (length (headers t)) (blockData block ! i)))))
   \<and> (\<forall>t \<in> set (processJob_tables pdf text opts). \<forall>r \<in> set (data t). length r = length (headers t))
   \<and> (length row \<le> n \<longrightarrow> normalizeRow n row = row @ replicate (n - length row) [])
   \<and> (n \<le> length row \<longrightarrow> normalizeRow n row = take n row)"
proof -
  have a: "\<forall>t \<in> set (detectTablesByLayout pdf). \<forall>r \<in> set (data t). length r = length (headers t)"
    using detectTablesByLayout_rows by blast
  have b: "\<forall>t \<in> set (detectTables text thr sens).
         (\<forall>r \<in> set (data t). length r = length (headers t))
         \<and> (\<exists>rows0. data t = map (normalizeRow (length (headers t))) rows0)
         \<and> (\<exists>pre block post. textLines text = pre @ block @ post
               \<and> (\<forall>line \<in> set block. isTableLine line sens)
               \<and> headers t = blockHeaders block
               \<and> data t = map (normalizeRow (length (headers t))) (blockData block)
               \<and> length (data t) = length (blockData block)
               \<and> (\<forall>i < length (blockData block).
                     (length (blockData block ! i) \<le> length (headers t) \<longrightarrow>
                        data t ! i = blockData block ! i
                          @ replicate (length (headers t) - length (blockData block ! i)) [])
                   \<and> (length (headers t) \<le> length (blockData block ! i) \<longrightarrow>
                        data t ! i = take (length (headers t)) (blockData block ! i))))"
  proof
    fix t assume t: "t \<in> set (detectTables text thr sens)"
    from detectTables_rows [OF t]
    have r1: "\<forall>r \<in> set (data t). length r = length (headers t)"
      and r2: "\<exists>rows0. data t = map (normalizeRow (length (headers t))) rows0"
      by (rule conjunct1, rule conjunct2)
    from r1 r2 detectTables_block_rows [OF t]
    show "(\<forall>r \<in> set (data t). length r = length (headers t))
         \<and> (\<exists>rows0. data t = map (normalizeRow (length (headers t))) rows0)
         \<and> (\<exists>pre block post. textLines text = pre @ block @ post
               \<and> (\<forall>line \<in> set block. isTableLine line sens)
               \<and> headers t = blockHeaders block
               \<and> data t = map (normalizeRow (length (headers t))) (blockData block)
               \<and> length (data t) = length (blockData block)
               \<and> (\<forall>i < length (blockData block).
                     (length (blockData block ! i) \<le> length (headers t) \<longrightarrow>
                        data t ! i = blockData block ! i
                          @ replicate (length (headers t) - length (blockData block ! i)) [])
                   \<and> (length (headers t) \<le> length (blockData block ! i) \<longrightarrow>
                        data t ! i = take (length (headers t)) (blockData block ! i))))"
      by (intro conjI)
  qed
  have c: "\<forall>t \<in> set (processJob_tables pdf text opts). \<forall>r \<in> set (data t). length r = length (headers t)"
    using processJob_tables_rows by blast
  have d: "length row \<le> n \<longrightarrow> normalizeRow n row = row @ replicate (n - length row) []"
    by (simp add: normalizeRow_pad)
  have e: "n \<le> length row \<longrightarrow> normalizeRow n row = take n row"
    by (simp add: normalizeRow_cut)
  show ?thesis by (intro conjI a b c d e)
qed

lemma people_job: "processJob_tables (Some [peoplePage]) regionText defaultOptions = [peopleTable]"
  by (simp add: processJob_tables_def people_layout)

text \<open>
  The page of two columns, the sales scenario, and the block of ragged lines, whose first
  data row is padded and whose second is cut.
\<close>

theorem every_row_has_header_length_witness:
  "peopleTable \<in> set (detectTablesByLayout (Some [peoplePage]))
   \<and> [js ''Bob'', js ''42''] \<in> set (data peopleTable)
   \<and> length [js ''Bob'', js ''42''] = length (headers peopleTable)
   \<and> regionTable \<in> set (detectTables regionText 70 Medium)
   \<and> [js ''Europe'', js ''$2,800,000'', js ''$2,650,000'', js ''Near Target''] \<in> set (data regionTable)
   \<and> length [js ''Europe'', js ''$2,800,000'', js ''$2,650,000'', js ''Near Target'']
       = length (headers regionTable)
   \<and> peopleTable \<in> set (processJob_tables (Some [peoplePage]) regionText defaultOptions)
   \<and> length [js ''x''] \<le> 3 \<and> normalizeRow 3 [js ''x''] = [js ''x'', [], []]
   \<and> 1 \<le> length [js ''x'', js ''y''] \<and> normalizeRow 1 [js ''x'', js ''y''] = [js ''x'']
   \<and> raggedTable \<in> set (detectTables raggedText 70 Medium)
   \<and> textLines raggedText = [] @ [raggedLine1, raggedLine2, raggedLine3] @ []
   \<and> isTableLine raggedLine1 Medium \<and> isTableLine raggedLine2 Medium \<and> isTableLine raggedLine3 Medium
   \<and> headers raggedTable = blockHeaders [raggedLine1, raggedLine2, raggedLine3]
   \<and> headers raggedTable = [js ''Name'', js ''Age'', js ''City'']
   \<and> blockData [raggedLine1, raggedLine2, raggedLine3]
       = [[js ''Bob'', js ''42''], [js ''Al'', js ''7'', js ''Rome'', js ''extra'']]
   \<and> data raggedTable = [[js ''Bob'', js ''42'', []], [js ''Al'', js ''7'', js ''Rome'']]
   \<and> (0 :: nat) < length (blockData [raggedLine1, raggedLine2, raggedLine3])
   \<and> length (blockData [raggedLine1, raggedLine2, raggedLine3] ! 0) \<le> length (headers raggedTable)
   \<and> data raggedTable ! 0 = [js ''Bob'', js ''42''] @ replicate 1 []
   \<and> (1 :: nat) < length (blockData [raggedLine1, raggedLine2, raggedLine3])
   \<and> length (headers raggedTable) \<le> length (blockData [raggedLine1, raggedLine2, raggedLine3] ! 1)
   \<and> data raggedTable ! 1 = take 3 [js ''Al'', js ''7'', js ''Rome'', js ''extra'']
   \<and> length [js ''Bob'', js ''42'', []] = length (headers raggedTable)"
proof -
  have a: "peopleTable \<in> set (detectTablesByLayout (Some [peoplePage]))
   \<and> [js ''Bob'', js ''42''] \<in> set (data peopleTable)
   \<and> length [js ''Bob'', js ''42''] = length (headers peopleTable)
   \<and> regionTable \<in> set (detectTables regionText 70 Medium)
   \<and> [js ''Europe'', js ''$2,800,000'', js ''$2,650,000'', js ''Near Target''] \<in> set (data regionTable)
   \<and> length [js ''Europe'', js ''$2,800,000'', js ''$2,650,000'', js ''Near Target'']
       = length (headers regionTable)
   \<and> peopleTable \<in> set (processJob_tables (Some [peoplePage]) regionText defaultOptions)
   \<and> length [js ''x''] \<le> 3 \<and> normalizeRow 3 [js ''x''] = [js ''x'', [], []]
   \<and> 1 \<le> length [js ''x'', js ''y''] \<and> normalizeRow 1 [js ''x'', js ''y''] = [js ''x'']"
    using every_row_has_header_length
      [of "Some [peoplePage]" regionText 70 Medium defaultOptions "[js ''x'']" 3]
      every_row_has_header_length
      [of "Some [peoplePage]" regionText 70 Medium defaultOptions "[js ''x'', js ''y'']" 1]
    by (simp add: people_layout region_tables people_job peopleTable_def regionTable_def
        numeral_2_eq_2)
  have m: "raggedTable \<in> set (detectTables raggedText 70 Medium)"
    by (simp add: ragged_tables)
  from every_row_has_header_length [of "Some [peoplePage]" raggedText 70 Medium defaultOptions "[]" 0] m
  have "\<forall>r \<in> set (data raggedTable). length r = length (headers raggedTable)"
    by (elim conjE) (drule (1) bspec, elim conjE, assumption)
  moreover have "[js ''Bob'', js ''42'', []] \<in> set (data raggedTable)"
    by (simp add: raggedTable_def)
  ultimately have f: "length [js ''Bob'', js ''42'', []] = length (headers raggedTable)"
    by (rule bspec)
  have b: "textLines raggedText = [] @ [raggedLine1, raggedLine2, raggedLine3] @ []"
    by (simp add: ragged_lines)
  have c: "isTableLine raggedLine1 Medium" "isTableLine raggedLine2 Medium" "isTableLine raggedLine3 Medium"
    by (rule ragged_table_lines)+
  have d: "headers raggedTable = blockHeaders [raggedLine1, raggedLine2, raggedLine3]"
    "headers raggedTable = [js ''Name'', js ''Age'', js ''City'']"
    "blockData [raggedLine1, raggedLine2, raggedLine3]
       = [[js ''Bob'', js ''42''], [js ''Al'', js ''7'', js ''Rome'', js ''extra'']]"
    "data raggedTable = [[js ''Bob'', js ''42'', []], [js ''Al'', js ''7'', js ''Rome'']]"
    by (simp_all add: ragged_block raggedTable_def)
  have e: "(0 :: nat) < length (blockData [raggedLine1, raggedLine2, raggedLine3])"
    "length (blockData [raggedLine1, raggedLine2, raggedLine3] ! 0) \<le> length (headers raggedTable)"
    "data raggedTable ! 0 = [js ''Bob'', js ''42''] @ replicate 1 []"
    "(1 :: nat) < length (blockData [raggedLine1, raggedLine2, raggedLine3])"
    "length (headers raggedTable) \<le> length (blockData [raggedLine1, raggedLine2, raggedLine3] ! 1)"
    "data raggedTable ! 1 = take 3 [js ''Al'', js ''7'', js ''Rome'', js ''extra'']"
    by (simp_all add: ragged_block raggedTable_def)
  from a m b c d e f show ?thesis by (intro conjI) (elim conjE, assumption)+
qed

text \<open>
  Claim C3. The confidence of every table that \<^verbatim>\<open>processJob\<close> stores is a number between
  0 and 100 (for a layout table 80 or 90); that of every table of the text-pattern
  detector lies between 30 and 100, as every number its scoring function returns does. The
  scoring function of the processor without layout detection stays between 0 and 100, and
  its floor is 0: on one header and a row of four empty cells it returns 0 where the
  other returns 30.
\<close>

theorem confidence_within_bounds:
  "(\<forall>t \<in> set (processJob_tables pdf text opts). \<exists>c. confidence t = Num c \<and> 0 \<le> c \<and> c \<le> 100)
   \<and> (\<forall>t \<in> set (detectTablesByLayout pdf). confidence t = Num 80 \<or> confidence t = Num 90)
   \<and> (\<forall>t \<in> set (detectTables text thr sens). \<exists>c. confidence t = Num c \<and> 30 \<le> c \<and> c \<le> 100)
   \<and> (\<forall>c. calculateTableConfidence hs rows = Num c \<longrightarrow> 30 \<le> c \<and> c \<le> 100)
   \<and> (\<forall>c. calculateTableConfidence_plain hs rows = Num c \<longrightarrow> 0 \<le> c \<and> c \<le> 100)
   \<and> calculateTableConfidence [js ''a''] [[[], [], [], []]] = Num 30
   \<and> calculateTableConfidence_plain [js ''a''] [[[], [], [], []]] = Num 0"
proof -
  have a: "calculateTableConfidence [js ''a''] [[[], [], [], []]] = Num 30"
    by (simp add: calculateTableConfidence_def test_Atom test_anchored js_def trim_def)
  have b: "calculateTableConfidence_plain [js ''a''] [[[], [], [], []]] = Num 0"
    by (simp add: calculateTableConfidence_plain_def test_Atom js_def trim_def)
  have c: "\<forall>t \<in> set (processJob_tables pdf text opts). \<exists>c. confidence t = Num c \<and> 0 \<le> c \<and> c \<le> 100"
    by (intro ballI) (rule processJob_tables_confidence)
  have d: "\<forall>t \<in> set (detectTablesByLayout pdf). confidence t = Num 80 \<or> confidence t = Num 90"
    by (intro ballI) (rule detectTablesByLayout_confidence)
  have e: "\<forall>t \<in> set (detectTables text thr sens). \<exists>c. confidence t = Num c \<and> 30 \<le> c \<and> c \<le> 100"
    by (intro ballI) (rule detectTables_confidence)
  have f: "\<forall>c. calculateTableConfidence hs rows = Num c \<longrightarrow> 30 \<le> c \<and> c \<le> 100"
    by (intro allI impI) (rule calculateTableConfidence_range)
  have g: "\<forall>c. calculateTableConfidence_plain hs rows = Num c \<longrightarrow> 0 \<le> c \<and> c \<le> 100"
    by (intro allI impI) (rule calculateTableConfidence_plain_range)
  show ?thesis by (intro conjI a b c d e f g)
qed

text \<open>The same two tables, and both scoring functions on a table of one cell.\<close>

theorem confidence_within_bounds_witness:
  "peopleTable \<in> set (processJob_tables (Some [peoplePage]) regionText defaultOptions)
   \<and> peopleTable \<in> set (detectTablesByLayout (Some [peoplePage]))
   \<and> confidence peopleTable = Num 90
   \<and> regionTable \<in> set (detectTables regionText 70 Medium)
   \<and> confidence regionTable = Num 100
   \<and> calculateTableConfidence [js ''a''] [[js ''b'']] = Num 65
   \<and> calculateTableConfidence_plain [js ''a''] [[js ''b'']] = Num 65"
proof -
  have a: "calculateTableConfidence [js ''a''] [[js ''b'']] = Num 65"
    by (simp add: calculateTableConfidence_def test_Atom test_anchored numericChar_def js_def
        trim_def isSpace_def isDigit_def)
  have b: "calculateTableConfidence_plain [js ''a''] [[js ''b'']] = Num 65"
    by (simp add: calculateTableConfidence_plain_def test_Atom numericChar_def js_def
        trim_def isSpace_def isDigit_def)
  show ?thesis
    using confidence_within_bounds
      [of "Some [peoplePage]" regionText defaultOptions 70 Medium "[js ''a'']" "[[js ''b'']]"] a b
    by (simp add: people_layout region_tables people_job peopleTable_def regionTable_def)
qed

text \<open>
  Claim C10. A table of the layout detector has confidence 80 or 90. Every row of its data
  has as many cells as there are headers, so the bonus of 20 is always earned; the
  confidence is 90 when there are more non-blank cells than data rows and 80 otherwise.
\<close>

theorem layout_confidence_is_80_or_90:
  "layoutPage k raw = Some t \<Longrightarrow>
     list_all (\<lambda>r. length r = length (headers t)) (data t)
   \<and> confidence t = Num (if length (filter nonBlank (concat (data t))) > length (data t) then 90 else 80)
   \<and> (confidence t = Num 80 \<or> confidence t = Num 90)"
  using layoutPage_rows [of k raw t] layoutPage_confidence [of k raw t]
  by (simp add: list_all_iff)

text \<open>The page of two columns: two non-blank cells in one data row, confidence 90.\<close>

theorem layout_confidence_is_80_or_90_witness:
  "layoutPage 0 peoplePage = Some peopleTable
   \<and> list_all (\<lambda>r. length r = length (headers peopleTable)) (data peopleTable)
   \<and> length (filter nonBlank (concat (data peopleTable))) > length (data peopleTable)
   \<and> confidence peopleTable = Num 90"
  using layout_confidence_is_80_or_90 [of 0 peoplePage peopleTable] people_table
  by (simp add: peopleTable_def nonBlank_def js_def trim_def isSpace_def)

section \<open>The three sensitivities\<close>

lemma rmatch_AtLeast_Atom:
  "rmatch (AtLeast n (Atom p)) s = (n \<le> length s \<and> (\<forall>c \<in> set s. p c))"
proof (induction n arbitrary: s)
  case 0
  then show ?case by (simp add: rmatch_Star_Atom)
next
  case (Suc n)
  show ?case
  proof (cases s)
    case Nil
    then show ?thesis by (simp add: rmatch_Seq rmatch_Atom)
  next
    case (Cons c cs)
    show ?thesis by (auto simp: Cons rmatch_Seq Suc.IH)
  qed
qed

lemma AtLeast_spaces_mono:
  "rmatch (AtLeast 3 spaces) s \<Longrightarrow> rmatch (AtLeast 2 spaces) s"
  by (simp add: spaces_def rmatch_AtLeast_Atom)

text \<open>A match of a longer sequence begins with a match of its first three parts.\<close>

lemma rmatch_Seq3_prefix:
  assumes "rmatch (Seq r1 (Seq r2 (Seq r3 t))) v"
  shows "\<exists>v1 v2. v = v1 @ v2 \<and> rmatch (Seq r1 (Seq r2 r3)) v1"
proof -
  from assms obtain a x where a: "v = a @ x" "rmatch r1 a" "rmatch (Seq r2 (Seq r3 t)) x"
    unfolding rmatch_Seq [of r1] by blast
  from a(3) obtain b y where b: "x = b @ y" "rmatch r2 b" "rmatch (Seq r3 t) y"
    unfolding rmatch_Seq [of r2] by blast
  from b(3) obtain c z where c: "y = c @ z" "rmatch r3 c"
    unfolding rmatch_Seq [of r3] by blast
  from b(2) c(2) have "rmatch (Seq r2 r3) (b @ c)"
    unfolding rmatch_Seq [of r2] by blast
  with a(2) have "rmatch (Seq r1 (Seq r2 r3)) (a @ b @ c)"
    unfolding rmatch_Seq [of r1] by blast
  moreover have "v = (a @ b @ c) @ z" by (simp add: a b c)
  ultimately show ?thesis by blast
qed

lemma test_Seq5_Seq3:
  assumes "test (Regex False (Seq r1 (Seq r2 (Seq r3 (Seq r4 r5)))) False) s"
  shows "test (Regex False (Seq r1 (Seq r2 r3)) False) s"
proof -
  from assms obtain u v w where s: "s = u @ v @ w" and v: "rmatch (Seq r1 (Seq r2 (Seq r3 (Seq r4 r5)))) v"
    unfolding test_search by auto
  from rmatch_Seq3_prefix [OF v] obtain v1 v2 where "v = v1 @ v2" "rmatch (Seq r1 (Seq r2 r3)) v1"
    by blast
  with s have "s = u @ v1 @ (v2 @ w)" "rmatch (Seq r1 (Seq r2 r3)) v1" by simp_all
  then show ?thesis by (rule test_searchI)
qed

lemma test_Seq_Ch:
  assumes "test (Regex False (Seq (Ch k) t) False) s"
  shows "test (Regex False (Ch k) False) s"
proof -
  from assms obtain u v w where s: "s = u @ v @ w" and v: "rmatch (Seq (Ch k) t) v"
    unfolding test_search by auto
  from v obtain a x where "v = a @ x" "rmatch (Ch k) a"
    unfolding rmatch_Seq by blast
  with s have "s = u @ a @ (x @ w)" "rmatch (Ch k) a" by simp_all
  then show ?thesis by (rule test_searchI)
qed

lemma test_spaces3_spaces2:
  assumes "test (Regex False (Seq (AtLeast 3 spaces) (Seq (Star Dot) (AtLeast 3 spaces))) False) s"
  shows "test (Regex False (Seq (AtLeast 2 spaces) (Seq (Star Dot) (AtLeast 2 spaces))) False) s"
proof -
  from assms obtain u v w where s: "s = u @ v @ w"
    and v: "rmatch (Seq (AtLeast 3 spaces) (Seq (Star Dot) (AtLeast 3 spaces))) v"
    unfolding test_search by auto
  from v obtain a x where a: "v = a @ x" "rmatch (AtLeast 3 spaces) a"
      "rmatch (Seq (Star Dot) (AtLeast 3 spaces)) x"
    unfolding rmatch_Seq [of "AtLeast 3 spaces"] by blast
  from a(3) obtain b c where b: "x = b @ c" "rmatch (Star Dot) b" "rmatch (AtLeast 3 spaces) c"
    unfolding rmatch_Seq [of "Star Dot"] by blast
  from b(2) AtLeast_spaces_mono [OF b(3)]
  have "rmatch (Seq (Star Dot) (AtLeast 2 spaces)) (b @ c)"
    unfolding rmatch_Seq [of "Star Dot"] by blast
  with AtLeast_spaces_mono [OF a(2)]
  have "rmatch (Seq (AtLeast 2 spaces) (Seq (Star Dot) (AtLeast 2 spaces))) (a @ b @ c)"
    unfolding rmatch_Seq [of "AtLeast 2 spaces"] by blast
  then have "rmatch (Seq (AtLeast 2 spaces) (Seq (Star Dot) (AtLeast 2 spaces))) v"
    by (simp only: a b)
  with s show ?thesis by (rule test_searchI)
qed

lemma isTableLine_Low:
  "isTableLine s Low =
    (test (Regex False (Seq (Ch CHR ''|'') (Seq (Star Dot) (Seq (Ch CHR ''|'') (Seq (Star Dot) (Ch CHR ''|''))))) False) s
     \<or> test (Regex False (Seq (Ch CHR 0x09) (Seq (Star Dot) (Seq (Ch CHR 0x09) (Seq (Star Dot) (Ch CHR 0x09))))) False) s)"
  by (simp add: isTableLine_def)

lemma low_is_medium: "isTableLine s Low \<Longrightarrow> isTableLine s Medium"
  unfolding isTableLine_Low
  by (auto simp: isTableLine_def dest: test_Seq5_Seq3)

lemma low_is_high: "isTableLine s Low \<Longrightarrow> isTableLine s High"
  unfolding isTableLine_Low
  by (auto simp: isTableLine_def dest!: test_Seq5_Seq3 dest: test_Seq_Ch)

lemma medium_structure_is_high:
  "list_ex (\<lambda>p. test p s) (butlast (patterns Medium)) \<Longrightarrow> isTableLine s High"
  by (auto simp: isTableLine_def dest: test_Seq_Ch test_spaces3_spaces2)

text \<open>
  Claim C4, as the code has it. A line that is table-like at sensitivity low is table-like
  at medium and at high. A line that is table-like at medium through one of the first three
  patterns of medium (two pipes, two tabs, two runs of three blanks) is table-like at high.
  The fourth pattern of medium, two characters out of digits, dollar signs and commas, has
  no counterpart among the patterns of high.
\<close>

theorem sensitivity_nesting_but_for_numbers:
  "(isTableLine line Low \<longrightarrow> isTableLine line Medium \<and> isTableLine line High)
   \<and> (list_ex (\<lambda>pattern. test pattern line) (butlast (patterns Medium)) \<longrightarrow> isTableLine line High)
   \<and> (isTableLine line Medium
        = (list_ex (\<lambda>pattern. test pattern line) (butlast (patterns Medium))
           \<or> test (Regex False (Seqs [Plus moneyChar, Star Dot, Plus moneyChar]) False) line))"
proof (intro conjI impI)
  assume "isTableLine line Low"
  then show "isTableLine line Medium" by (rule low_is_medium)
next
  assume "isTableLine line Low"
  then show "isTableLine line High" by (rule low_is_high)
next
  assume "list_ex (\<lambda>pattern. test pattern line) (butlast (patterns Medium))"
  then show "isTableLine line High" by (rule medium_structure_is_high)
next
  show "isTableLine line Medium
        = (list_ex (\<lambda>pattern. test pattern line) (butlast (patterns Medium))
           \<or> test (Regex False (Seqs [Plus moneyChar, Star Dot, Plus moneyChar]) False) line)"
    by (auto simp: isTableLine_def)
qed

text \<open>A line of three pipes, and a line of two runs of three blanks.\<close>

theorem sensitivity_nesting_but_for_numbers_witness:
  "isTableLine (js ''a|b|c|d'') Low
   \<and> isTableLine (js ''a|b|c|d'') Medium \<and> isTableLine (js ''a|b|c|d'') High
   \<and> list_ex (\<lambda>pattern. test pattern (js ''x   y   z'')) (butlast (patterns Medium))
   \<and> isTableLine (js ''x   y   z'') High"
proof -
  have a: "isTableLine (js ''a|b|c|d'') Low"
    by (simp add: isTableLine_def js_def test.simps rx_defs)
  have b: "list_ex (\<lambda>pattern. test pattern (js ''x   y   z'')) (butlast (patterns Medium))"
    by (simp add: js_def test.simps rx_defs)
  show ?thesis
    using sensitivity_nesting_but_for_numbers [of "js ''a|b|c|d''"]
      sensitivity_nesting_but_for_numbers [of "js ''x   y   z''"] a b
    by blast
qed

text \<open>
  The line \<^verbatim>\<open>12\<close> is table-like at medium, by the fourth pattern, and not at high: the
  accepted lines of medium are not all accepted at high.
\<close>

theorem medium_line_not_high:
  "isTableLine (js ''12'') Medium \<and> \<not> isTableLine (js ''12'') High"
  by (simp add: isTableLine_def js_def test.simps rx_defs)

section \<open>The score of the space-run separator\<close>

lemma test_spaces2:
  "test (Regex False (AtLeast 2 spaces) False) s
     = (\<exists>u v w. s = u @ v @ w \<and> 2 \<le> length v \<and> (\<forall>c \<in> set v. isSpace c))"
  by (simp add: test_search spaces_def rmatch_AtLeast_Atom)

lemma test_spaces2_Nil [simp]: "test (Regex False (AtLeast 2 spaces) False) [] = False"
  by (simp add: test_spaces2)

lemma test_spaces2_single [simp]: "test (Regex False (AtLeast 2 spaces) False) [c] = False"
proof -
  have "\<not> (\<exists>u v w. [c] = u @ v @ w \<and> 2 \<le> length v \<and> (\<forall>c \<in> set v. isSpace c))"
  proof
    assume "\<exists>u v w. [c] = u @ v @ w \<and> 2 \<le> length v \<and> (\<forall>c \<in> set v. isSpace c)"
    then obtain u v w where "[c] = u @ v @ w" "2 \<le> length v" by blast
    then have "length [c] = length u + length v + length w" by (metis length_append add.assoc)
    with \<open>2 \<le> length v\<close> show False by simp
  qed
  then show ?thesis by (simp only: test_spaces2)
qed

lemma test_spaces2_Cons [simp]:
  "test (Regex False (AtLeast 2 spaces) False) (c # d # cs)
     = (isSpace c \<and> isSpace d \<or> test (Regex False (AtLeast 2 spaces) False) (d # cs))"
proof
  assume "test (Regex False (AtLeast 2 spaces) False) (c # d # cs)"
  then obtain u v w where s: "c # d # cs = u @ v @ w" and v: "2 \<le> length v" "\<forall>c \<in> set v. isSpace c"
    unfolding test_spaces2 by blast
  show "isSpace c \<and> isSpace d \<or> test (Regex False (AtLeast 2 spaces) False) (d # cs)"
  proof (cases u)
    case Nil
    from v(1) obtain a b v' where "v = a # b # v'"
      by (cases v rule: list.exhaust; simp) (metis Suc_le_length_iff numeral_2_eq_2 list.inject)
    with s Nil v(2) show ?thesis by simp
  next
    case (Cons a u')
    with s have "d # cs = u' @ v @ w" by simp
    with v have "test (Regex False (AtLeast 2 spaces) False) (d # cs)"
      unfolding test_spaces2 by blast
    then show ?thesis ..
  qed
next
  assume "isSpace c \<and> isSpace d \<or> test (Regex False (AtLeast 2 spaces) False) (d # cs)"
  then show "test (Regex False (AtLeast 2 spaces) False) (c # d # cs)"
  proof
    assume "isSpace c \<and> isSpace d"
    then have "c # d # cs = [] @ [c, d] @ cs \<and> 2 \<le> length [c, d] \<and> (\<forall>x \<in> set [c, d]. isSpace x)"
      by simp
    then show ?thesis unfolding test_spaces2 by blast
  next
    assume "test (Regex False (AtLeast 2 spaces) False) (d # cs)"
    then obtain u v w where "d # cs = u @ v @ w" "2 \<le> length v" "\<forall>c \<in> set v. isSpace c"
      unfolding test_spaces2 by blast
    then have "c # d # cs = (c # u) @ v @ w \<and> 2 \<le> length v \<and> (\<forall>c \<in> set v. isSpace c)"
      by simp
    then show ?thesis unfolding test_spaces2 by blast
  qed
qed

lemma price_scores:
  "score (SepChar CHR ''|'') priceBlock = 2"
  "score (SepChar CHR 0x09) priceBlock = 0"
  "score (SepRegex (Regex False (AtLeast 2 spaces) False)) priceBlock = 2"
  by (simp_all add: score_def priceBlock_def js_def isSpace_def)

lemma price_separator: "detectSeparator priceBlock = js ''|''"
  by (rule detectSeparator_pipe) (simp_all add: price_scores)

lemma price_runs: "map (\<lambda>line. length (splitRuns line) - 1) priceBlock = [3, 3, 0]"
  by (simp add: priceBlock_def js_def isSpace_def)

lemma isTableLine_Medium_spaces:
  assumes "s = u @ v @ w"
    and "rmatch (Seq (AtLeast 3 spaces) (Seq (Star Dot) (AtLeast 3 spaces))) v"
  shows "isTableLine s Medium"
proof -
  from assms have "test (Regex False (Seq (AtLeast 3 spaces) (Seq (Star Dot) (AtLeast 3 spaces))) False) s"
    by (rule test_searchI)
  then show ?thesis by (simp add: isTableLine_def)
qed

lemma price_table_lines: "\<forall>line \<in> set priceBlock. isTableLine line Medium"
proof -
  have "isTableLine (js ''Item   Qty   Price   Total'') Medium"
    by (rule isTableLine_Medium_spaces [of _ "js ''Item''" "js ''   Qty   ''" "js ''Price   Total''"])
       (simp_all add: js_def rx_defs)
  moreover have "isTableLine (js ''Pen   2   $3   $6'') Medium"
    by (rule isTableLine_Medium_spaces [of _ "js ''Pen''" "js ''   2   ''" "js ''$3   $6''"])
       (simp_all add: js_def rx_defs)
  moreover have "isTableLine (js ''Notes | see | below'') Medium"
    by (rule isTableLine_Medium_pipes [of _ "js ''Notes ''" "js '' see ''" "js '' below''"])
       (simp_all add: js_def isLineTerminator_def)
  ultimately show ?thesis by (simp add: priceBlock_def)
qed

lemma parseTable_few:
  assumes "length (filter (\<lambda>row. length row \<ge> 2)
             (map (\<lambda>line. splitTableLine line (detectSeparator block)) block)) < 2"
  shows "parseTable block k thr = None"
  using assms by (simp add: parseTable_def Let_def)

lemma price_parse: "parseTable priceBlock 0 70 = None"
proof (rule parseTable_few)
  have cells: "map (\<lambda>line. splitTableLine line (js ''|'')) priceBlock
      = [[js ''Item   Qty   Price   Total''], [js ''Pen   2   $3   $6''],
         [js ''Notes'', js ''see'', js ''below'']]"
    by (simp add: priceBlock_def splitTableLine_def js_def trim_def isSpace_def)
  show "length (filter (\<lambda>row. length row \<ge> 2)
          (map (\<lambda>line. splitTableLine line (detectSeparator priceBlock)) priceBlock)) < 2"
    unfolding price_separator cells by simp
qed

lemma price_scan: "scanLines priceBlock 70 Medium = []"
proof -
  have "foldl (scanLine 70 Medium) ([], 0, False, []) priceBlock = (priceBlock, 0, True, [])"
    using price_table_lines by (simp add: priceBlock_def scanLine_def)
  then show ?thesis
    by (simp add: scanLines_def scanEnd_def closeBlock_def price_parse)
qed

text \<open>What \<open>detectSeparator\<close> returns, in terms of the three scores.\<close>

lemma detectSeparator_eq:
  "detectSeparator lines =
     (let p = score (SepChar CHR ''|'') lines;
          t = score (SepChar CHR 0x09) lines;
          s = score (SepRegex (Regex False (AtLeast 2 spaces) False)) lines
      in if s > max p t then js '' '' else if t > p then [of_char CHR 0x09] else js ''|'')"
  by (simp add: detectSeparator_def separators_def Let_def js_def)

text \<open>
  Claim C6, at a block the code mishandles. The pipe occurs twice in the block, the tab
  never, and \<^verbatim>\<open>/\s{2,}/\<close> has six matches, three in each of the first two lines (a
  split at \<^verbatim>\<open>/\s{2,}/\<close> gives one piece more than there are matches). The run of blanks
  has the strictly highest total. \<open>detectSeparator\<close> gives it the score 2, one for each
  line with a match, keeps the pipe on the tie, and the block yields no table.
\<close>

theorem space_runs_counted_once_per_line:
  "score (SepChar CHR ''|'') priceBlock = 2
   \<and> score (SepChar CHR 0x09) priceBlock = 0
   \<and> score (SepRegex (Regex False (AtLeast 2 spaces) False)) priceBlock = 2
   \<and> sum_list (map (\<lambda>line. length (splitRuns line) - 1) priceBlock) = 6
   \<and> detectSeparator priceBlock = js ''|''
   \<and> scanLines priceBlock 70 Medium = []"
proof -
  have runs: "sum_list (map (\<lambda>line. length (splitRuns line) - 1) priceBlock) = 6"
    unfolding price_runs by simp
  show ?thesis by (intro conjI price_scores runs price_separator price_scan)
qed

section \<open>Pages and their bands\<close>

lemma length_bins: "length (bins xs) = length (cuts xs) + 2"
  by (simp add: bins_def Let_def)

lemma length_columns: "length (columns xs) = length (cuts xs) + 1"
  by (simp add: columns_def length_bins)


lemma single_columns: "pageColumns singlePage = [\<lparr> minX = 72, maxX = 73 \<rparr>]"
proof -
  have "pageItems singlePage = singlePage"
    by (simp add: pageItems_def singlePage_def js_def trim_def isSpace_def)
  moreover have "pageRows singlePage = [\<lparr> row_y = 700, row_items = singlePage \<rparr>]"
    by (simp add: pageRows_def clusterRows_def singlePage_def yTolerance_def)
  ultimately show ?thesis
    by (simp add: pageColumns_def xPositions_def columns_def bins_def singlePage_def)
qed

lemma wide_columns: "length (pageColumns widePage) = 13"
proof -
  have w: "widePage = map (\<lambda>x. \<lparr> tok_str = js ''c'', tok_x = x, tok_y = 700 \<rparr>)
             [0, 30, 60, 90, 120, 150, 180, 210, 240, 270, 300, 330, 360]"
    by (simp add: widePage_def upt_conv_Cons)
  have "pageItems widePage = widePage"
    by (simp add: pageItems_def w js_def trim_def isSpace_def)
  moreover have "pageRows widePage = [\<lparr> row_y = 700, row_items = widePage \<rparr>]"
    by (simp add: pageRows_def clusterRows_def w yTolerance_def)
  ultimately show ?thesis
    by (simp add: pageColumns_def xPositions_def length_columns w gapThreshold_def)
qed

text \<open>
  Claim C5. A page whose number of column bands is below 2 or above 12 gives no table: the
  page loop goes on to the next page with the same counter. This covers the page with
  exactly one band and the page with exactly thirteen.
\<close>

theorem band_count_outside_range_gives_no_table:
  "length (pageColumns raw) < 2 \<or> 12 < length (pageColumns raw) \<Longrightarrow>
     layoutPage k raw = None \<and> layoutLoop k (raw # rest) = layoutLoop k rest"
proof -
  assume "length (pageColumns raw) < 2 \<or> 12 < length (pageColumns raw)"
  then have "layoutPage k raw = None"
    by (simp add: layoutPage_def pageColumns_def Let_def)
  then show ?thesis by simp
qed

text \<open>A page of one item has one band, a page of thirteen distant items has thirteen.\<close>

theorem band_count_outside_range_gives_no_table_witness:
  "length (pageColumns singlePage) = 1 \<and> layoutPage 0 singlePage = None
   \<and> length (pageColumns widePage) = 13 \<and> layoutPage 0 widePage = None
   \<and> layoutLoop 0 [singlePage, widePage] = []"
  using band_count_outside_range_gives_no_table [of singlePage 0 "[widePage]"]
    band_count_outside_range_gives_no_table [of widePage 0 "[]"]
  by (simp add: single_columns wide_columns)


end
